theory Spec2Isabelle
  imports Main "HOL-Library.Sublist" "HOL-Library.Multiset"
begin

section \<open>Plugin discovery: \<open>findPluginSpecs\<close>\<close>

text \<open>
  The module under study is the RxJS pipeline \<open>findPluginSpecs(settings, configToMutate)\<close>.
  It is embedded as follows.

  \<^item> An observable is the finite list of values it emits, followed by how it ends:
    \<open>None\<close> for completion, \<open>Some f\<close> for an error notification \<open>f\<close>.
  \<^item> Inside \<open>extendConfig$\<close>, where calls that change the shared configuration alternate
    with deliveries, an observable is what a subscription to it does: it calls the
    subscriber for each value at the moment the value is delivered. There the two
    barriers \<open>bufferAllResults\<close> decide in which order the routines of the specs run.
  \<^item> The shared, mutable \<open>Config\<close> object is the \<open>config\<close> component of a state that is
    passed through the stages. The state also carries a \<open>trace\<close>: the calls made to the
    routines of the plugin specs, in the order in which they take effect.
  \<^item> Code imported from other modules (\<open>../server/config\<close>, \<open>./plugin_config\<close>,
    \<open>./plugin_pack\<close>, \<open>./errors\<close>, \<open>fs\<close>) and the methods of the objects it hands over are
    fields of one record of collaborators. They are taken to return normally.
    Where a property is about what the routines of \<open>./plugin_config\<close> do to the
    configuration, they are modelled as the specification describes them.
  \<^item> Two orders are left open by the asynchronous sources and are parameters of the model:
    the interleaving in which \<open>Observable.merge\<close> delivers the results of the locators,
    and the order in which the promises of \<open>extendConfigService\<close> settle.
  \<^item> The record returned by \<open>findPluginSpecs\<close> is the outcome of one run in which every
    channel has been subscribed before the configuration resolves, so that the stages
    behind \<open>share()\<close> execute once.
\<close>

subsection \<open>Data\<close>

text \<open>What a stream can fail with: \<open>new Error(message)\<close> thrown by the conflict check, and the
  two errors the RxJS operators used here can raise themselves.\<close>

datatype failure = Error string | TypeError | EmptyError

type_synonym 'a obs = "'a list \<times> failure option"

text \<open>Only \<open>directoryPath\<close> of a parsed package manifest is read here.\<close>

record descriptor =
  directoryPath :: string

text \<open>The result objects \<open>{error?, packageJson?}\<close> and \<open>{error?, pack?}\<close>: an absent (or
  \<open>null\<close>) field is \<open>None\<close>. What a field holds is an object, so the tests
  \<open>result.error\<close>, \<open>result.packageJson\<close> and \<open>pack\<close> succeed exactly when the field is there;
  the same goes for the optional argument \<open>configToMutate\<close>.
  \<open>identity\<close> stands for the reference of a result object of a locator. It is read in one
  place only: \<open>distinct\<close> compares two results by reference when each of them is its own
  key. Two such results are one object, delivered twice, iff they have the same
  \<open>identity\<close>.\<close>

record 'e result =
  error :: "'e option"

record 'e findResult = "'e result" +
  packageJson :: "descriptor option"
  identity :: nat

record ('e, 'p) packResult = "'e result" +
  pack :: "'p option"

record 's specHolder =
  spec :: 's

text \<open>\<open>{spec, message}\<close>\<close>

record 's deprecation = "'s specHolder" +
  message :: string

text \<open>\<open>{spec, deprecations}\<close>\<close>

record 's extension = "'s specHolder" +
  deprecations :: "'s deprecation list"

text \<open>The classified record. Its \<open>config\<close> field is the shared object itself, not a copy:
  in the model it is the \<open>config\<close> component of the state.\<close>

record 's classified = "'s extension" +
  enabledSpecs :: "'s list"
  disabledSpecs :: "'s list"
  invalidVersionSpecs :: "'s list"

datatype 's event = Extend 's | VersionCheck 's | EnabledCheck 's | Disable 's

record ('c, 's) world =
  config :: 'c
  trace :: "'s event list"

text \<open>
  The collaborators. \<open>'st\<close> are the settings, \<open>'c\<close> the states of the \<open>Config\<close> object,
  \<open>'e\<close> the error values, \<open>'p\<close> the packs, \<open>'s\<close> the plugin specs.
  \<open>extendConfigService spec config settings\<close> gives the configuration after the extension and
  the messages it passed to \<open>logDeprecation\<close>.
  \<open>observableInput\<close> says how \<open>mergeMap\<close> sees a \<open>Config\<close> object that its projection returns:
  \<open>Some xs\<close> when the object is array-like or iterable with elements \<open>xs\<close> of type \<open>'x\<close>,
  \<open>None\<close> when it is no stream; \<open>truthy\<close> is \<open>Boolean\<close> on such elements.
\<close>

record ('st, 'c, 'e, 'p, 's, 'x) collaborators =
  transformDeprecations :: "'st \<Rightarrow> 'st"
  withDefaultSchema :: "'st \<Rightarrow> 'c"
  get_plugins_paths :: "'c \<Rightarrow> string list"
  get_plugins_scanDirs :: "'c \<Rightarrow> string list"
  get_pkg_version :: "'c \<Rightarrow> string"
  createPackageJsonAtPath :: "string \<Rightarrow> 'e findResult list"
  createPackageJsonsInDirectory :: "string \<Rightarrow> 'e findResult list"
  realpathSync :: "string \<Rightarrow> string"
  errorMessage :: "'e \<Rightarrow> string"
  createPack :: "'e findResult \<Rightarrow> ('e, 'p) packResult"
  getPluginSpecs :: "'p \<Rightarrow> 's list"
  getId :: "'s \<Rightarrow> string"
  getPath :: "'s \<Rightarrow> string"
  isVersionCompatible :: "'s \<Rightarrow> string \<Rightarrow> bool"
  isEnabled :: "'s \<Rightarrow> 'c \<Rightarrow> bool"
  extendConfigService :: "'s \<Rightarrow> 'c \<Rightarrow> 'st \<Rightarrow> 'c \<times> string list"
  disableConfigExtension :: "'s \<Rightarrow> 'c \<Rightarrow> 'c"
  isInvalidDirectoryError :: "'e option \<Rightarrow> bool"
  isInvalidPackError :: "'e option \<Rightarrow> bool"
  observableInput :: "'c \<Rightarrow> 'x list option"
  truthy :: "'x \<Rightarrow> bool"

subsection \<open>The operators of RxJS that the module uses\<close>

text \<open>\<open>Observable.merge\<close> of streams that emit asynchronously: the schedule names the stream
  that delivers next; what is left when the schedule ends is delivered stream by stream.\<close>

fun mergeBy :: "nat list \<Rightarrow> 'a list list \<Rightarrow> 'a list" where
  "mergeBy [] xss = concat xss"
| "mergeBy (i # sched) xss =
     (if i < length xss then
        (case xss ! i of
           [] \<Rightarrow> mergeBy sched xss
         | x # xs \<Rightarrow> x # mergeBy sched (xss[i := xs]))
      else mergeBy sched xss)"

text \<open>\<open>mergeMap\<close> with a projection to a promise: the results come in the order in which the
  promises settle. The schedule names, by its position among those pending, the one that
  settles next; those left when the schedule ends settle in the order of their calls.\<close>

fun settleBy :: "nat list \<Rightarrow> 'a list \<Rightarrow> 'a list" where
  "settleBy [] xs = xs"
| "settleBy (i # order) xs =
     (if i < length xs then xs ! i # settleBy order (take i xs @ drop (Suc i) xs)
      else settleBy order xs)"

text \<open>\<open>distinct(keySelector)\<close>: a value passes when its key is not among the keys seen.\<close>

fun distinctFrom :: "('a \<Rightarrow> 'k) \<Rightarrow> 'k set \<Rightarrow> 'a list \<Rightarrow> 'a list" where
  "distinctFrom key seen [] = []"
| "distinctFrom key seen (x # xs) =
     (if key x \<in> seen then distinctFrom key seen xs
      else x # distinctFrom key (insert (key x) seen) xs)"

definition distinctBy :: "('a \<Rightarrow> 'k) \<Rightarrow> 'a list \<Rightarrow> 'a list" where
  "distinctBy key xs = distinctFrom key {} xs"

text \<open>\<open>mergeMap\<close> over projections that are delivered synchronously: the elements of each
  input in turn; an input that is no stream ends the result with a \<open>TypeError\<close>.\<close>

fun mergeMapInputs :: "'x list option list \<Rightarrow> 'x obs" where
  "mergeMapInputs [] = ([], None)"
| "mergeMapInputs (None # rest) = ([], Some TypeError)"
| "mergeMapInputs (Some xs # rest) =
     (case mergeMapInputs rest of (ys, f) \<Rightarrow> (xs @ ys, f))"

definition filter_op :: "('a \<Rightarrow> bool) \<Rightarrow> 'a obs \<Rightarrow> 'a obs" where
  "filter_op p s = (filter p (fst s), snd s)"

text \<open>\<open>last()\<close> with no default value: nothing is emitted before the source ends; an error is
  passed on, and a source that completes without a value gives \<open>EmptyError\<close>.\<close>

definition last_op :: "'a obs \<Rightarrow> 'a obs" where
  "last_op s =
     (case snd s of
        Some f \<Rightarrow> ([], Some f)
      | None \<Rightarrow> (if fst s = [] then ([], Some EmptyError) else ([last (fst s)], None)))"

text \<open>\<open>mergeMap\<close> with a projection to an array.\<close>

definition mergeMapArray :: "('a \<Rightarrow> 'b list) \<Rightarrow> 'a obs \<Rightarrow> 'b obs" where
  "mergeMapArray f s = (concat (map f (fst s)), snd s)"

subsection \<open>Subscriptions: the operators inside \<open>extendConfig$\<close>\<close>

text \<open>
  Where deliveries alternate with effects on the shared state, a stream is given by what a
  subscription to it does: \<open>source next st\<close> calls \<open>next\<close> for each value, at the moment
  the stream delivers it, and gives the state when the stream has completed. The state
  is a pair: what the subscriber has accumulated itself, and the shared state.
\<close>

type_synonym ('a, 'r, 'w) observable =
  "('a \<Rightarrow> 'r \<times> 'w \<Rightarrow> 'r \<times> 'w) \<Rightarrow> 'r \<times> 'w \<Rightarrow> 'r \<times> 'w"

text \<open>An array that a projection of \<open>mergeMap\<close> returns: its elements are delivered one after
  the other, synchronously.\<close>

definition fromArray :: "'a list \<Rightarrow> ('a, 'r, 'w) observable" where
  "fromArray array next st = foldl (\<lambda>st x. next x st) st array"

text \<open>A subscriber that only keeps what it is given: the values delivered, in order, and the
  shared state when the source completes.\<close>

definition buffered :: "('a, 'a list, 'w) observable \<Rightarrow> 'w \<Rightarrow> 'a list \<times> 'w" where
  "buffered source w = source (\<lambda>x st. (fst st @ [x], snd st)) ([], w)"

text \<open>\<open>toArray()\<close>: nothing is delivered while the source runs; when it completes, the array
  of its values is delivered.\<close>

definition toArray :: "('a, 'a list, 'w) observable \<Rightarrow> ('a list, 'r, 'w) observable" where
  "toArray source next st =
     (case buffered source (snd st) of (array, w) \<Rightarrow> next array (fst st, w))"

text \<open>\<open>mergeMap\<close> with a projection to an array: for each value of the source, the elements
  of the array are delivered at once.\<close>

definition mergeMap_op :: "('a \<Rightarrow> 'b list) \<Rightarrow> ('a, 'r, 'w) observable \<Rightarrow> ('b, 'r, 'w) observable" where
  "mergeMap_op project source next = source (\<lambda>x st. fromArray (project x) next st)"

text \<open>\<open>mergeMap\<close> with a projection to a promise. The source here delivers in one synchronous
  burst, so the projection has been called for every value before a promise settles.
  A call takes effect when its promise settles, and its result is delivered downstream
  at that very moment, before the next promise settles. \<open>settle\<close> orders the calls as
  their promises settle.\<close>

definition mergeMap_async ::
  "('a \<Rightarrow> 'w \<Rightarrow> 'b \<times> 'w) \<Rightarrow> ('a list \<Rightarrow> 'a list) \<Rightarrow> ('a, 'a list, 'w) observable
     \<Rightarrow> ('b, 'r, 'w) observable" where
  "mergeMap_async project settle source next st =
     (case buffered source (snd st) of
        (calls, w) \<Rightarrow>
          foldl (\<lambda>st x. case project x (snd st) of (y, w') \<Rightarrow> next y (fst st, w'))
            (fst st, w) (settle calls))"

text \<open>\<open>map\<close>: the projection is applied to a value when it is delivered, on the shared state
  of that moment, and its result is delivered on.\<close>

definition map_op ::
  "('a \<Rightarrow> 'w \<Rightarrow> 'b \<times> 'w) \<Rightarrow> ('a, 'r, 'w) observable \<Rightarrow> ('b, 'r, 'w) observable" where
  "map_op project source next =
     source (\<lambda>x st. case project x (snd st) of (y, w') \<Rightarrow> next y (fst st, w'))"

text \<open>\<open>do\<close>: the effect runs when a value is delivered; then the value is delivered on.\<close>

definition do_op :: "('a \<Rightarrow> 'w \<Rightarrow> 'w) \<Rightarrow> ('a, 'r, 'w) observable \<Rightarrow> ('a, 'r, 'w) observable" where
  "do_op effect source next = source (\<lambda>x st. next x (fst st, effect x (snd st)))"

subsection \<open>The helpers of the module\<close>

definition defaultConfig ::
  "('st, 'c, 'e, 'p, 's, 'x) collaborators \<Rightarrow> 'st \<Rightarrow> 'c" where
  "defaultConfig env settings = withDefaultSchema env (transformDeprecations env settings)"

text \<open>\<open>observable.toArray().mergeMap(array => array)\<close>: the values of the source are held
  back until it has completed, and with it every effect of producing them; then they are
  delivered, one after the other.\<close>

definition bufferAllResults :: "('a, 'a list, 'w) observable \<Rightarrow> ('a, 'r, 'w) observable" where
  "bufferAllResults observable = mergeMap_op (\<lambda>array. array) (toArray observable)"

text \<open>The keys of \<open>distinct\<close>: a string, or a result object itself, which is compared by
  reference.\<close>

datatype key = KString string | KResult nat

definition getDistinctKeyForFindResult ::
  "('st, 'c, 'e, 'p, 's, 'x) collaborators \<Rightarrow> 'e findResult \<Rightarrow> key" where
  "getDistinctKeyForFindResult env result =
     (case error result of
        Some e \<Rightarrow> KString (errorMessage env e)
      | None \<Rightarrow>
          (case packageJson result of
             Some pj \<Rightarrow> KString (realpathSync env (directoryPath pj))
           | None \<Rightarrow> KResult (identity result)))"

text \<open>The \<open>Map\<close> from identifiers to arrays of specs, as the list of its entries in the order
  of insertion.\<close>

fun pushSpec :: "string \<Rightarrow> 's \<Rightarrow> (string \<times> 's list) list \<Rightarrow> (string \<times> 's list) list" where
  "pushSpec ident s [] = [(ident, [s])]"
| "pushSpec ident s ((k, v) # m) =
     (if k = ident then (k, v @ [s]) # m else (k, v) # pushSpec ident s m)"

definition groupSpecsById ::
  "('st, 'c, 'e, 'p, 's, 'x) collaborators \<Rightarrow> 's list \<Rightarrow> (string \<times> 's list) list" where
  "groupSpecsById env specs = foldl (\<lambda>specsById s. pushSpec (getId env s) s specsById) [] specs"

fun join :: "string \<Rightarrow> string list \<Rightarrow> string" where
  "join sep [] = []"
| "join sep [x] = x"
| "join sep (x # y # ys) = x @ sep @ join sep (y # ys)"

definition conflictMessage ::
  "('st, 'c, 'e, 'p, 's, 'x) collaborators \<Rightarrow> string \<Rightarrow> 's list \<Rightarrow> string" where
  \<open>conflictMessage env ident specs =
     ''Multple plugins found with the id "'' @ ident @ ''":\<newline>'' @
     join ''\<newline>'' (map (\<lambda>s. ''  - '' @ ident @ '' at '' @ getPath env s) specs)\<close>

text \<open>The loop over the entries of the map: the first entry with more than one spec throws.\<close>

fun checkConflicts ::
  "('st, 'c, 'e, 'p, 's, 'x) collaborators \<Rightarrow> (string \<times> 's list) list \<Rightarrow> failure option" where
  "checkConflicts env [] = None"
| "checkConflicts env ((ident, specs) # rest) =
     (if length specs > 1 then Some (Error (conflictMessage env ident specs))
      else checkConflicts env rest)"

text \<open>Whether an error belongs to neither class; the argument is \<open>result.error\<close>.\<close>

definition isUnhandledError ::
  "('st, 'c, 'e, 'p, 's, 'x) collaborators \<Rightarrow> 'e option \<Rightarrow> bool" where
  "isUnhandledError env err \<longleftrightarrow>
     err \<noteq> None \<and> \<not> isInvalidDirectoryError env err \<and> \<not> isInvalidPackError env err"

subsection \<open>The configuration source\<close>

text \<open>
  \<open>config$\<close> is \<open>Observable.defer(...).shareReplay()\<close>: the deferred function runs for the
  first subscriber, and its value is kept and replayed to every later one. The state of
  the source holds the value kept, and counts how often the deferred function and
  \<open>defaultConfig\<close> have run.
\<close>

record 'c configSource =
  cached :: "'c option"
  deferRuns :: nat
  defaultConfigCalls :: nat

definition config_S ::
  "('st, 'c, 'e, 'p, 's, 'x) collaborators \<Rightarrow> 'st \<Rightarrow> 'c option \<Rightarrow> 'c configSource
     \<Rightarrow> 'c \<times> 'c configSource" where
  "config_S env settings configToMutate src =
     (case cached src of
        Some c \<Rightarrow> (c, src)
      | None \<Rightarrow>
          (case configToMutate of
             Some c \<Rightarrow> (c, src\<lparr>cached := Some c, deferRuns := Suc (deferRuns src)\<rparr>)
           | None \<Rightarrow>
               (let c = defaultConfig env settings
                in (c, src\<lparr>cached := Some c, deferRuns := Suc (deferRuns src),
                            defaultConfigCalls := Suc (defaultConfigCalls src)\<rparr>))))"

definition newSource :: "'c configSource" where
  "newSource = \<lparr>cached = None, deferRuns = 0, defaultConfigCalls = 0\<rparr>"

text \<open>A number of subscribers, one after the other; each gets a value.\<close>

fun subscribeAll ::
  "('st, 'c, 'e, 'p, 's, 'x) collaborators \<Rightarrow> 'st \<Rightarrow> 'c option \<Rightarrow> nat \<Rightarrow> 'c configSource
     \<Rightarrow> 'c list \<times> 'c configSource" where
  "subscribeAll env settings configToMutate 0 src = ([], src)"
| "subscribeAll env settings configToMutate (Suc n) src =
     (case config_S env settings configToMutate src of
        (c, src1) \<Rightarrow>
          (case subscribeAll env settings configToMutate n src1 of
             (cs, src2) \<Rightarrow> (c # cs, src2)))"

subsection \<open>The stages of \<open>extendConfig$\<close>\<close>

text \<open>\<open>mergeMap(({ pack }) => pack ? pack.getPluginSpecs() : [])\<close>\<close>

definition specsOfPacks ::
  "('st, 'c, 'e, 'p, 's, 'x) collaborators \<Rightarrow> ('e, 'p) packResult list \<Rightarrow> 's list" where
  "specsOfPacks env packs =
     concat (map (\<lambda>r. case pack r of Some p \<Rightarrow> getPluginSpecs env p | None \<Rightarrow> []) packs)"

text \<open>The asynchronous projection: one spec is extended, its deprecations are collected.
  The state records the call where it takes effect.\<close>

definition extendOne ::
  "('st, 'c, 'e, 'p, 's, 'x) collaborators \<Rightarrow> 'st \<Rightarrow> 's \<Rightarrow> ('c, 's) world
     \<Rightarrow> 's extension \<times> ('c, 's) world" where
  "extendOne env settings s w =
     (case extendConfigService env s (config w) settings of
        (c, messages) \<Rightarrow>
          (\<lparr>spec = s, deprecations = map (\<lambda>m. \<lparr>spec = s, message = m\<rparr>) messages\<rparr>,
           w\<lparr>config := c, trace := trace w @ [Extend s]\<rparr>))"

text \<open>The projection of the \<open>map\<close> after the first barrier. It reads the configuration as it
  is when the value is delivered; \<open>&&\<close> calls \<open>isEnabled\<close> only for a right version.\<close>

definition classifyOne ::
  "('st, 'c, 'e, 'p, 's, 'x) collaborators \<Rightarrow> 's extension \<Rightarrow> ('c, 's) world
     \<Rightarrow> 's classified \<times> ('c, 's) world" where
  "classifyOne env x w =
     (let isRightVersion = isVersionCompatible env (spec x) (get_pkg_version env (config w));
          enabled = (isRightVersion \<and> isEnabled env (spec x) (config w))
      in (\<lparr>spec = spec x, deprecations = deprecations x,
           enabledSpecs = (if enabled then [spec x] else []),
           disabledSpecs = (if enabled then [] else [spec x]),
           invalidVersionSpecs = (if isRightVersion then [] else [spec x])\<rparr>,
          w\<lparr>trace := trace w @ VersionCheck (spec x) #
                       (if isRightVersion then [EnabledCheck (spec x)] else [])\<rparr>))"

text \<open>The effect of the \<open>do\<close> after the second barrier: the loop over
  \<open>result.disabledSpecs\<close>.\<close>

fun disableSpecs ::
  "('st, 'c, 'e, 'p, 's, 'x) collaborators \<Rightarrow> 's list \<Rightarrow> ('c, 's) world \<Rightarrow> ('c, 's) world" where
  "disableSpecs env [] w = w"
| "disableSpecs env (s # ss) w =
     disableSpecs env ss
       (w\<lparr>config := disableConfigExtension env s (config w), trace := trace w @ [Disable s]\<rparr>)"

text \<open>
  \<open>extendConfig$\<close> for one configuration: the results it emits and how it ends, the
  configuration as it is when each result is emitted, and the state it leaves.
  The specs of all packs are collected by \<open>toArray()\<close> and checked; without a conflict the
  array is delivered and runs through the operators as they are chained in the source.
  The subscriber at the end notes each result with the configuration of that moment.
  \<open>settle\<close> orders the specs as their extensions settle.
\<close>

definition extendConfig_S ::
  "('st, 'c, 'e, 'p, 's, 'x) collaborators \<Rightarrow> 'st \<Rightarrow> ('s list \<Rightarrow> 's list)
     \<Rightarrow> ('e, 'p) packResult list \<Rightarrow> ('c, 's) world
     \<Rightarrow> 's classified obs \<times> 'c list \<times> ('c, 's) world" where
  "extendConfig_S env settings settle packs w =
     (let allSpecs = specsOfPacks env packs
      in (case checkConflicts env (groupSpecsById env allSpecs) of
            Some err \<Rightarrow> (([], Some err), [], w)
          | None \<Rightarrow>
              (case do_op (\<lambda>result. disableSpecs env (disabledSpecs result))
                      (bufferAllResults
                        (map_op (classifyOne env)
                          (bufferAllResults
                            (mergeMap_async (extendOne env settings) settle
                              (fromArray allSpecs)))))
                      (\<lambda>result st. (fst st @ [(result, config (snd st))], snd st))
                      ([], w) of
                 (emitted, w') \<Rightarrow> ((map fst emitted, None), map snd emitted, w'))))"

subsection \<open>The stages taken one at a time\<close>

text \<open>For the proofs, not a part of the module: what each of the three stages does when it
  runs over all its values with nothing in between, the values it delivers and the state
  it leaves. For \<open>rollback\<close> the first component lists the configuration as it is when each
  result leaves the stage. That \<open>extendConfig$\<close> amounts to the three in a row is lemma
  \<open>extendConfig_S_closed\<close>.\<close>

fun extendAll ::
  "('st, 'c, 'e, 'p, 's, 'x) collaborators \<Rightarrow> 'st \<Rightarrow> 's list \<Rightarrow> ('c, 's) world
     \<Rightarrow> 's extension list \<times> ('c, 's) world" where
  "extendAll env settings [] w = ([], w)"
| "extendAll env settings (s # ss) w =
     (case extendOne env settings s w of
        (r, w1) \<Rightarrow>
          (case extendAll env settings ss w1 of
             (rs, w2) \<Rightarrow> (r # rs, w2)))"

fun classifyAll ::
  "('st, 'c, 'e, 'p, 's, 'x) collaborators \<Rightarrow> 's extension list \<Rightarrow> ('c, 's) world
     \<Rightarrow> 's classified list \<times> ('c, 's) world" where
  "classifyAll env [] w = ([], w)"
| "classifyAll env (x # xs) w =
     (case classifyOne env x w of
        (r, w1) \<Rightarrow>
          (case classifyAll env xs w1 of
             (rs, w2) \<Rightarrow> (r # rs, w2)))"

fun rollback ::
  "('st, 'c, 'e, 'p, 's, 'x) collaborators \<Rightarrow> 's classified list \<Rightarrow> ('c, 's) world
     \<Rightarrow> 'c list \<times> ('c, 's) world" where
  "rollback env [] w = ([], w)"
| "rollback env (r # rs) w =
     (let w1 = disableSpecs env (disabledSpecs r) w
      in (case rollback env rs w1 of
            (cs, w2) \<Rightarrow> (config w1 # cs, w2)))"

subsection \<open>\<open>findPluginSpecs\<close>\<close>

text \<open>
  Modelled from the spec: \<open>createPack$\<close> of \<open>./plugin_pack\<close> is not among the sources. The
  Pack Synthesizer converts each surviving descriptor result into a pack-or-error result,
  one result for one; \<open>createPack\<close> of the collaborators is that conversion.
\<close>

definition createPack_S ::
  "('st, 'c, 'e, 'p, 's, 'x) collaborators \<Rightarrow> 'e findResult list \<Rightarrow> ('e, 'p) packResult list" where
  "createPack_S env results = map (createPack env) results"

text \<open>The results of all locators in the order of arrival.\<close>

definition locate ::
  "('st, 'c, 'e, 'p, 's, 'x) collaborators \<Rightarrow> nat list \<Rightarrow> 'c \<Rightarrow> 'e findResult list" where
  "locate env arrival c =
     mergeBy arrival
       (map (createPackageJsonAtPath env) (get_plugins_paths env c) @
        map (createPackageJsonsInDirectory env) (get_plugins_scanDirs env c))"

text \<open>\<open>.distinct(getDistinctKeyForFindResult)\<close>\<close>

definition dedupe ::
  "('st, 'c, 'e, 'p, 's, 'x) collaborators \<Rightarrow> 'e findResult list \<Rightarrow> 'e findResult list" where
  "dedupe env found = distinctBy (getDistinctKeyForFindResult env) found"

text \<open>The projections of the returned object.\<close>

definition errorsWhere :: "('e option \<Rightarrow> bool) \<Rightarrow> ('e, 'p) packResult list \<Rightarrow> 'e option list" where
  "errorsWhere p packs = concat (map (\<lambda>r. if p (error r) then [error r] else []) packs)"

definition extendedConfigOf ::
  "('st, 'c, 'e, 'p, 's, 'x) collaborators \<Rightarrow> 's classified obs \<Rightarrow> 'c list \<Rightarrow> 'x obs" where
  "extendedConfigOf env extendConfig configs =
     last_op (filter_op (truthy env)
       (case snd extendConfig of
          Some f \<Rightarrow> ([], Some f)
        | None \<Rightarrow> mergeMapInputs (map (observableInput env) configs)))"

record ('e, 'p, 's, 'x) channels =
  packageJson_S :: "descriptor obs"
  pack_S :: "'p obs"
  invalidDirectoryError_S :: "'e option obs"
  invalidPackError_S :: "'e option obs"
  otherError_S :: "'e option obs"
  deprecation_S :: "'s deprecation obs"
  extendedConfig_S :: "'x obs"
  spec_S :: "'s obs"
  disabledSpec_S :: "'s obs"
  invalidVersionSpec_S :: "'s obs"

text \<open>
  One run: the channels, the state left (configuration and trace of calls) and the state
  of the configuration source. \<open>config$\<close> has two subscribers, the search for package
  manifests and \<open>extendConfig$\<close>. \<open>arrival\<close> is the schedule of the merged locators,
  \<open>order\<close> that of the extensions.
\<close>

definition findPluginSpecs ::
  "('st, 'c, 'e, 'p, 's, 'x) collaborators \<Rightarrow> 'st \<Rightarrow> 'c option \<Rightarrow> nat list
     \<Rightarrow> nat list
     \<Rightarrow> ('e, 'p, 's, 'x) channels \<times> ('c, 's) world \<times> 'c configSource" where
  "findPluginSpecs env settings configToMutate arrival order =
     (case config_S env settings configToMutate newSource of
        (c1, src1) \<Rightarrow>
          (let packageJsonResults = dedupe env (locate env arrival c1);
               packResults = createPack_S env packageJsonResults
           in (case config_S env settings configToMutate src1 of
                 (c2, src2) \<Rightarrow>
                   (case extendConfig_S env settings (settleBy order) packResults
                           \<lparr>config = c2, trace = []\<rparr> of
                      (extendConfig, configs, w) \<Rightarrow>
                        (\<lparr>packageJson_S =
                             (concat (map (\<lambda>r. case packageJson r of Some pj \<Rightarrow> [pj] | None \<Rightarrow> [])
                                packageJsonResults), None),
                          pack_S =
                             (concat (map (\<lambda>r. case pack r of Some p \<Rightarrow> [p] | None \<Rightarrow> [])
                                packResults), None),
                          invalidDirectoryError_S =
                             (errorsWhere (isInvalidDirectoryError env) packResults, None),
                          invalidPackError_S =
                             (errorsWhere (isInvalidPackError env) packResults, None),
                          otherError_S =
                             (errorsWhere (isUnhandledError env) packResults, None),
                          deprecation_S = mergeMapArray deprecations extendConfig,
                          extendedConfig_S = extendedConfigOf env extendConfig configs,
                          spec_S = mergeMapArray enabledSpecs extendConfig,
                          disabledSpec_S = mergeMapArray disabledSpecs extendConfig,
                          invalidVersionSpec_S = mergeMapArray invalidVersionSpecs extendConfig\<rparr>,
                         w, src2)))))"

subsection \<open>The routines of \<open>./plugin_config\<close>\<close>

text \<open>
  Modelled from the spec: \<open>extendConfigService\<close> and \<open>disableConfigExtension\<close> of
  \<open>./plugin_config\<close> are not among the sources. The configuration-extension routine of a
  spec mutates the shared configuration in place, adding what the spec contributes, and
  records zero or more deprecation messages through the callback; the
  configuration-disable routine of a spec reverts whatever it contributed. A
  configuration is modelled as far as this goes: next to the rest of its content it
  holds the specs whose contributions are in it, and it reflects the contribution of a
  spec when the spec is among them. \<open>messages\<close> gives the deprecation messages of a spec.
\<close>

record ('b, 's) extensible =
  content :: 'b
  contributions :: "'s list"

definition extendConfigService_spec ::
  "('s \<Rightarrow> 'st \<Rightarrow> string list) \<Rightarrow> 's \<Rightarrow> ('b, 's) extensible \<Rightarrow> 'st
     \<Rightarrow> ('b, 's) extensible \<times> string list" where
  "extendConfigService_spec messages s c settings =
     (c\<lparr>contributions := contributions c @ [s]\<rparr>, messages s settings)"

definition disableConfigExtension_spec :: "'s \<Rightarrow> ('b, 's) extensible \<Rightarrow> ('b, 's) extensible" where
  "disableConfigExtension_spec s c = c\<lparr>contributions := removeAll s (contributions c)\<rparr>"

definition reflects :: "('b, 's) extensible \<Rightarrow> 's \<Rightarrow> bool" where
  "reflects c s \<longleftrightarrow> s \<in> set (contributions c)"

text \<open>Collaborators whose two routines are these.\<close>

definition withPluginConfig ::
  "('s \<Rightarrow> 'st \<Rightarrow> string list) \<Rightarrow> ('st, ('b, 's) extensible, 'e, 'p, 's, 'x) collaborators
     \<Rightarrow> ('st, ('b, 's) extensible, 'e, 'p, 's, 'x) collaborators" where
  "withPluginConfig messages env =
     env\<lparr>extendConfigService := extendConfigService_spec messages,
         disableConfigExtension := disableConfigExtension_spec\<rparr>"

subsection \<open>A sample installation\<close>

text \<open>
  Concrete collaborators on which the theorems below are instantiated. A configuration
  records the version of the package and where to look for plugins, and holds the
  contributions of the plugins that have extended it; a plugin may require the
  contribution of another one to be enabled. The settings list the identifiers whose
  settings use a deprecated key.
\<close>

datatype sampleError = InvalidDirectory string | InvalidPack string | Unexpected string

record sampleSpec =
  specId :: string
  specPath :: string
  kibanaVersion :: string
  requires :: "string option"

record sampleContent =
  pkgVersion :: string
  pluginPaths :: "string list"
  pluginScanDirs :: "string list"

type_synonym sampleConfig = "(sampleContent, sampleSpec) extensible"

fun sampleMessage :: "sampleError \<Rightarrow> string" where
  "sampleMessage (InvalidDirectory m) = m"
| "sampleMessage (InvalidPack m) = m"
| "sampleMessage (Unexpected m) = m"

definition specA :: sampleSpec where
  "specA = \<lparr>specId = ''a'', specPath = ''/plugins/a'', kibanaVersion = ''6.2.0'', requires = None\<rparr>"

definition specB :: sampleSpec where
  "specB = \<lparr>specId = ''b'', specPath = ''/plugins/b'', kibanaVersion = ''6.2.0'',
             requires = Some ''a''\<rparr>"

definition specOld :: sampleSpec where
  "specOld = \<lparr>specId = ''old'', specPath = ''/plugins/old'', kibanaVersion = ''5.6.0'',
               requires = None\<rparr>"

definition specOff :: sampleSpec where
  "specOff = \<lparr>specId = ''off'', specPath = ''/plugins/off'', kibanaVersion = ''6.2.0'',
               requires = Some ''absent''\<rparr>"

definition specA2 :: sampleSpec where
  "specA2 = \<lparr>specId = ''a'', specPath = ''/other/a'', kibanaVersion = ''6.2.0'', requires = None\<rparr>"

definition specB2 :: sampleSpec where
  "specB2 = \<lparr>specId = ''b'', specPath = ''/other/b'', kibanaVersion = ''6.2.0'', requires = None\<rparr>"

definition sampleSpecsAt :: "string \<Rightarrow> sampleSpec list" where
  "sampleSpecsAt path =
     (if path = ''/plugins/a'' then [specA]
      else if path = ''/plugins/b'' then [specB]
      else if path = ''/plugins/mixed'' then [specOld, specOff]
      else if path = ''/other/a'' then [specA2]
      else if path = ''/other/b'' then [specB2]
      else [])"

definition sampleDeprecations :: "sampleSpec \<Rightarrow> string list \<Rightarrow> string list" where
  "sampleDeprecations s settings =
     (if specId s \<in> set settings then [''deprecated setting''] else [])"

definition sampleEnv ::
  "(string list, sampleConfig, sampleError, sampleSpec list, sampleSpec, nat) collaborators" where
  "sampleEnv =
     \<lparr>transformDeprecations = (\<lambda>st. st),
      withDefaultSchema =
        (\<lambda>st. \<lparr>content = \<lparr>pkgVersion = ''6.2.0'', pluginPaths = [], pluginScanDirs = []\<rparr>,
                contributions = []\<rparr>),
      get_plugins_paths = (\<lambda>c. pluginPaths (content c)),
      get_plugins_scanDirs = (\<lambda>c. pluginScanDirs (content c)),
      get_pkg_version = (\<lambda>c. pkgVersion (content c)),
      createPackageJsonAtPath =
        (\<lambda>path. [\<lparr>error = None, packageJson = Some \<lparr>directoryPath = path\<rparr>, identity = 0\<rparr>]),
      createPackageJsonsInDirectory =
        (\<lambda>dir. if dir = ''/plugins''
               then [\<lparr>error = None, packageJson = Some \<lparr>directoryPath = ''/plugins/a''\<rparr>,
                      identity = 0\<rparr>,
                     \<lparr>error = None, packageJson = Some \<lparr>directoryPath = ''/plugins/b''\<rparr>,
                      identity = 0\<rparr>]
               else [\<lparr>error = Some (InvalidDirectory ''no such directory''),
                      packageJson = None, identity = 0\<rparr>]),
      realpathSync = (\<lambda>path. if path = ''/link/a'' then ''/plugins/a'' else path),
      errorMessage = sampleMessage,
      createPack =
        (\<lambda>r. case error r of
               Some e \<Rightarrow> \<lparr>error = Some e, pack = None\<rparr>
             | None \<Rightarrow>
                 (case packageJson r of
                    Some pj \<Rightarrow>
                      (if sampleSpecsAt (directoryPath pj) = []
                       then \<lparr>error = Some (InvalidPack ''not a plugin''), pack = None\<rparr>
                       else \<lparr>error = None, pack = Some (sampleSpecsAt (directoryPath pj))\<rparr>)
                  | None \<Rightarrow> \<lparr>error = Some (Unexpected ''packageJson is required''),
                             pack = None\<rparr>)),
      getPluginSpecs = (\<lambda>p. p),
      getId = specId,
      getPath = specPath,
      isVersionCompatible = (\<lambda>s v. kibanaVersion s = v),
      isEnabled =
        (\<lambda>s c. case requires s of
                  None \<Rightarrow> True
                | Some k \<Rightarrow> k \<in> set (map specId (contributions c))),
      extendConfigService = extendConfigService_spec sampleDeprecations,
      disableConfigExtension = disableConfigExtension_spec,
      isInvalidDirectoryError =
        (\<lambda>e. case e of Some (InvalidDirectory m) \<Rightarrow> True | _ \<Rightarrow> False),
      isInvalidPackError =
        (\<lambda>e. case e of Some (InvalidPack m) \<Rightarrow> True | _ \<Rightarrow> False),
      observableInput = (\<lambda>c. None),
      truthy = (\<lambda>x. x \<noteq> 0)\<rparr>"

definition sampleConfig0 :: sampleConfig where
  "sampleConfig0 =
     \<lparr>content = \<lparr>pkgVersion = ''6.2.0'', pluginPaths = [''/plugins/mixed'', ''/link/a''],
                 pluginScanDirs = [''/plugins'', ''/nowhere'']\<rparr>,
      contributions = []\<rparr>"

definition emptyConfig :: sampleConfig where
  "emptyConfig =
     \<lparr>content = \<lparr>pkgVersion = ''6.2.0'', pluginPaths = [], pluginScanDirs = []\<rparr>,
      contributions = []\<rparr>"

definition world0 :: "(sampleConfig, sampleSpec) world" where
  "world0 = \<lparr>config = sampleConfig0, trace = []\<rparr>"

definition conflictConfig :: sampleConfig where
  "conflictConfig =
     \<lparr>content = \<lparr>pkgVersion = ''6.2.0'',
                 pluginPaths = [''/plugins/a'', ''/other/a'', ''/plugins/b'', ''/other/b''],
                 pluginScanDirs = []\<rparr>,
      contributions = []\<rparr>"

text \<open>Variations of the sample. In the first, the error of a directory that cannot be
  scanned has the name of the directory as its message. In the second, \<open>isInvalidPackError\<close>
  accepts every error. In the third, \<open>isInvalidDirectoryError\<close> accepts \<open>null\<close>.\<close>

definition shadowEnv ::
  "(string list, sampleConfig, sampleError, sampleSpec list, sampleSpec, nat) collaborators" where
  "shadowEnv =
     sampleEnv\<lparr>createPackageJsonsInDirectory :=
       (\<lambda>dir. [\<lparr>error = Some (InvalidDirectory dir), packageJson = None, identity = 0\<rparr>])\<rparr>"

definition shadowConfig :: sampleConfig where
  "shadowConfig =
     \<lparr>content = \<lparr>pkgVersion = ''6.2.0'', pluginPaths = [''/x1'', ''/x2'', ''/plugins/a''],
                 pluginScanDirs = [''/plugins/a'']\<rparr>,
      contributions = []\<rparr>"

definition overlapEnv ::
  "(string list, sampleConfig, sampleError, sampleSpec list, sampleSpec, nat) collaborators" where
  "overlapEnv = sampleEnv\<lparr>isInvalidPackError := (\<lambda>e. e \<noteq> None)\<rparr>"

definition overlapConfig :: sampleConfig where
  "overlapConfig =
     \<lparr>content = \<lparr>pkgVersion = ''6.2.0'', pluginPaths = [],
                 pluginScanDirs = [''/nowhere'', ''/elsewhere'', ''/gone'']\<rparr>,
      contributions = []\<rparr>"

definition nullEnv ::
  "(string list, sampleConfig, sampleError, sampleSpec list, sampleSpec, nat) collaborators" where
  "nullEnv =
     sampleEnv\<lparr>isInvalidDirectoryError :=
       (\<lambda>e. case e of None \<Rightarrow> True | Some (InvalidDirectory m) \<Rightarrow> True | _ \<Rightarrow> False)\<rparr>"

definition onePluginConfig :: sampleConfig where
  "onePluginConfig =
     \<lparr>content = \<lparr>pkgVersion = ''6.2.0'', pluginPaths = [''/plugins/a''], pluginScanDirs = []\<rparr>,
      contributions = []\<rparr>"

subsection \<open>Notions used to state the properties\<close>

text \<open>The configuration once the extension routine of each of the specs has run, in the
  order given.\<close>

definition mergedConfig ::
  "('st, 'c, 'e, 'p, 's, 'x) collaborators \<Rightarrow> 'st \<Rightarrow> 'c \<Rightarrow> 's list \<Rightarrow> 'c" where
  "mergedConfig env settings c specs =
     foldl (\<lambda>c s. fst (extendConfigService env s c settings)) c specs"

text \<open>The configuration once the disable routine of each of the specs has run.\<close>

definition rolledBackConfig ::
  "('st, 'c, 'e, 'p, 's, 'x) collaborators \<Rightarrow> 'c \<Rightarrow> 's list \<Rightarrow> 'c" where
  "rolledBackConfig env c specs = foldl (\<lambda>c s. disableConfigExtension env s c) c specs"

text \<open>The calls that classify one spec against a configuration.\<close>

definition checksOf ::
  "('st, 'c, 'e, 'p, 's, 'x) collaborators \<Rightarrow> 'c \<Rightarrow> 's \<Rightarrow> 's event list" where
  "checksOf env c s =
     VersionCheck s #
     (if isVersionCompatible env s (get_pkg_version env c) then [EnabledCheck s] else [])"

text \<open>The classification as the specification words it (Enablement Resolver): the two
  booleans of a spec against a configuration.\<close>

definition isRightVersion_spec ::
  "('st, 'c, 'e, 'p, 's, 'x) collaborators \<Rightarrow> 'c \<Rightarrow> 's \<Rightarrow> bool" where
  "isRightVersion_spec env c s \<longleftrightarrow> isVersionCompatible env s (get_pkg_version env c)"

definition enabled_spec ::
  "('st, 'c, 'e, 'p, 's, 'x) collaborators \<Rightarrow> 'c \<Rightarrow> 's \<Rightarrow> bool" where
  "enabled_spec env c s \<longleftrightarrow> isRightVersion_spec env c s \<and> isEnabled env s c"

text \<open>What \<open>config$\<close> gives, the pack results of a run, and the specs collected from them.\<close>

definition resolvedConfig ::
  "('st, 'c, 'e, 'p, 's, 'x) collaborators \<Rightarrow> 'st \<Rightarrow> 'c option \<Rightarrow> 'c" where
  "resolvedConfig env settings configToMutate =
     (case configToMutate of Some c \<Rightarrow> c | None \<Rightarrow> defaultConfig env settings)"

definition packResultsOf ::
  "('st, 'c, 'e, 'p, 's, 'x) collaborators \<Rightarrow> nat list \<Rightarrow> 'c \<Rightarrow> ('e, 'p) packResult list" where
  "packResultsOf env arrival c = createPack_S env (dedupe env (locate env arrival c))"

definition collectedSpecs ::
  "('st, 'c, 'e, 'p, 's, 'x) collaborators \<Rightarrow> 'st \<Rightarrow> 'c option \<Rightarrow> nat list \<Rightarrow> 's list" where
  "collectedSpecs env settings configToMutate arrival =
     specsOfPacks env (packResultsOf env arrival (resolvedConfig env settings configToMutate))"

text \<open>The specs that pass the conflict check: all of them, or none.\<close>

definition survivingSpecs ::
  "('st, 'c, 'e, 'p, 's, 'x) collaborators \<Rightarrow> 's list \<Rightarrow> 's list" where
  "survivingSpecs env allSpecs =
     (case checkConflicts env (groupSpecsById env allSpecs) of
        None \<Rightarrow> allSpecs
      | Some err \<Rightarrow> [])"

text \<open>The collected specs in the order in which their extensions settle, and the
  configuration of a run once every one of them has extended it.\<close>

definition settledSpecs ::
  "('st, 'c, 'e, 'p, 's, 'x) collaborators \<Rightarrow> 'st \<Rightarrow> 'c option \<Rightarrow> nat list \<Rightarrow> nat list
     \<Rightarrow> 's list" where
  "settledSpecs env settings configToMutate arrival order =
     settleBy order (collectedSpecs env settings configToMutate arrival)"

definition fullyMerged ::
  "('st, 'c, 'e, 'p, 's, 'x) collaborators \<Rightarrow> 'st \<Rightarrow> 'c option \<Rightarrow> nat list \<Rightarrow> nat list
     \<Rightarrow> 'c" where
  "fullyMerged env settings configToMutate arrival order =
     mergedConfig env settings (resolvedConfig env settings configToMutate)
       (settledSpecs env settings configToMutate arrival order)"

text \<open>The three phases of a run: extension, classification, rollback.\<close>

fun phase :: "'s event \<Rightarrow> nat" where
  "phase (Extend s) = 0"
| "phase (VersionCheck s) = 1"
| "phase (EnabledCheck s) = 1"
| "phase (Disable s) = 2"

text \<open>The first spec, in the order of collection, whose identifier another spec has too.\<close>

definition firstDuplicated ::
  "('st, 'c, 'e, 'p, 's, 'x) collaborators \<Rightarrow> 's list \<Rightarrow> 's option" where
  "firstDuplicated env specs =
     find (\<lambda>s. 1 < length (filter (\<lambda>t. getId env t = getId env s) specs)) specs"

text \<open>A result of a locator has an error or a package manifest, not both.\<close>

definition wellShaped :: "'e findResult \<Rightarrow> bool" where
  "wellShaped r \<longleftrightarrow> error r = None \<or> packageJson r = None"

section \<open>Properties\<close>

subsection \<open>The stages in closed form\<close>

lemma fromArray_buffer:
  "foldl (\<lambda>st x. (fst st @ [x], snd st)) (b, w) xs = (b @ xs, w)"
  by (induction xs arbitrary: b) simp_all

lemma buffered_fromArray: "buffered (fromArray xs) w = (xs, w)"
  by (simp add: buffered_def fromArray_def fromArray_buffer)

text \<open>The barrier: the source runs to its end against a subscriber that only keeps the
  values; what comes after the barrier starts from the state the source has left.\<close>

lemma bufferAllResults_apply:
  "bufferAllResults source next st =
     fromArray (fst (buffered source (snd st))) next (fst st, snd (buffered source (snd st)))"
  by (simp add: bufferAllResults_def mergeMap_op_def toArray_def case_prod_unfold)

lemma extend_buffer:
  "foldl (\<lambda>st x. case extendOne env settings x (snd st) of (y, w') \<Rightarrow> (fst st @ [y], w')) (b, w) xs =
     (b @ fst (extendAll env settings xs w), snd (extendAll env settings xs w))"
  by (induction xs arbitrary: b w) (simp_all add: case_prod_unfold)

lemma buffered_extend:
  "buffered (mergeMap_async (extendOne env settings) settle (fromArray xs)) w =
     extendAll env settings (settle xs) w"
  by (simp add: buffered_def mergeMap_async_def buffered_fromArray [unfolded buffered_def] extend_buffer)

lemma classify_buffer:
  "foldl (\<lambda>st x. case classifyOne env x (snd st) of (y, w') \<Rightarrow> (fst st @ [y], w')) (b, w) xs =
     (b @ fst (classifyAll env xs w), snd (classifyAll env xs w))"
  by (induction xs arbitrary: b w) (simp_all add: case_prod_unfold)

lemma buffered_classify:
  "buffered (map_op (classifyOne env) (bufferAllResults source)) w =
     classifyAll env (fst (buffered source w)) (snd (buffered source w))"
  by (simp add: buffered_def [of "map_op (classifyOne env) (bufferAllResults source)"] map_op_def
      bufferAllResults_apply fromArray_def classify_buffer)

lemma rollback_noted:
  "foldl (\<lambda>st x. (fst st @ [(x, config (disableSpecs env (disabledSpecs x) (snd st)))],
                   disableSpecs env (disabledSpecs x) (snd st))) (b, w) rs =
     (b @ zip rs (fst (rollback env rs w)), snd (rollback env rs w))"
  by (induction rs arbitrary: b w) (simp_all add: case_prod_unfold Let_def)

lemma rollback_length: "length (fst (rollback env rs w)) = length rs"
  by (induction rs arbitrary: w) (simp_all add: Let_def case_prod_unfold)

lemma classifyAll_length: "length (fst (classifyAll env xs w)) = length xs"
  by (induction xs arbitrary: w) (simp_all add: case_prod_unfold)

lemma extendAll_length: "length (fst (extendAll env settings xs w)) = length xs"
  by (induction xs arbitrary: w) (simp_all add: case_prod_unfold)

lemma specsOfPacks_no_pack: "pack r = None \<Longrightarrow> specsOfPacks env [r] = []"
  by (simp add: specsOfPacks_def)

lemma specsOfPacks_skip:
  "pack r = None \<Longrightarrow> specsOfPacks env (before @ r # after) = specsOfPacks env (before @ after)"
  by (simp add: specsOfPacks_def)

lemma extendAll_config:
  "config (snd (extendAll env settings xs w)) = mergedConfig env settings (config w) xs"
  by (induction xs arbitrary: w) (simp_all add: mergedConfig_def extendOne_def case_prod_unfold)

lemma extendAll_trace:
  "trace (snd (extendAll env settings xs w)) = trace w @ map Extend xs"
  by (induction xs arbitrary: w) (simp_all add: extendOne_def case_prod_unfold)

lemma extendAll_spec:
  "map spec (fst (extendAll env settings xs w)) = xs"
  by (induction xs arbitrary: w) (simp_all add: extendOne_def case_prod_unfold)

lemma classifyAll_config:
  "config (snd (classifyAll env xs w)) = config w"
  by (induction xs arbitrary: w) (simp_all add: classifyOne_def Let_def case_prod_unfold)

lemma classifyAll_trace:
  "trace (snd (classifyAll env xs w)) =
     trace w @ concat (map (checksOf env (config w)) (map spec xs))"
  by (induction xs arbitrary: w)
     (simp_all add: classifyOne_def Let_def case_prod_unfold checksOf_def)

lemma disableSpecs_config:
  "config (disableSpecs env ss w) = rolledBackConfig env (config w) ss"
  by (induction ss arbitrary: w) (simp_all add: rolledBackConfig_def)

lemma disableSpecs_trace:
  "trace (disableSpecs env ss w) = trace w @ map Disable ss"
  by (induction ss arbitrary: w) simp_all

lemma rolledBackConfig_append:
  "rolledBackConfig env c (xs @ ys) = rolledBackConfig env (rolledBackConfig env c xs) ys"
  by (simp add: rolledBackConfig_def)

lemma rollback_config:
  "config (snd (rollback env rs w)) =
     rolledBackConfig env (config w) (concat (map disabledSpecs rs))"
  by (induction rs arbitrary: w)
     (simp_all add: Let_def case_prod_unfold disableSpecs_config rolledBackConfig_append,
      simp add: rolledBackConfig_def)

lemma rollback_trace:
  "trace (snd (rollback env rs w)) = trace w @ map Disable (concat (map disabledSpecs rs))"
  by (induction rs arbitrary: w) (simp_all add: Let_def case_prod_unfold disableSpecs_trace)

lemma config_S_first:
  "config_S env settings cfg newSource =
     (resolvedConfig env settings cfg,
      \<lparr>cached = Some (resolvedConfig env settings cfg), deferRuns = 1,
       defaultConfigCalls = (case cfg of Some c \<Rightarrow> 0 | None \<Rightarrow> 1)\<rparr>)"
  by (simp add: config_S_def newSource_def resolvedConfig_def Let_def split: option.splits)

lemma config_S_cached:
  "cached src = Some c \<Longrightarrow> config_S env settings cfg src = (c, src)"
  by (simp add: config_S_def)

lemma classifyAll_enabledSpecs:
  "concat (map enabledSpecs (fst (classifyAll env xs w))) =
     filter (enabled_spec env (config w)) (map spec xs)"
  by (induction xs arbitrary: w)
     (simp_all add: classifyOne_def Let_def case_prod_unfold enabled_spec_def isRightVersion_spec_def)

lemma classifyAll_disabledSpecs:
  "concat (map disabledSpecs (fst (classifyAll env xs w))) =
     filter (\<lambda>s. \<not> enabled_spec env (config w) s) (map spec xs)"
  by (induction xs arbitrary: w)
     (simp_all add: classifyOne_def Let_def case_prod_unfold enabled_spec_def isRightVersion_spec_def)

lemma classifyAll_invalidVersionSpecs:
  "concat (map invalidVersionSpecs (fst (classifyAll env xs w))) =
     filter (\<lambda>s. \<not> isRightVersion_spec env (config w) s) (map spec xs)"
  by (induction xs arbitrary: w)
     (simp_all add: classifyOne_def Let_def case_prod_unfold isRightVersion_spec_def)

text \<open>\<open>extendConfig$\<close> when a conflict is found, and when none is: then the three stages
  run one after the other, each over all the values.\<close>

lemma extendConfig_S_closed:
  assumes "checkConflicts env (groupSpecsById env (specsOfPacks env packs)) = None"
  shows "extendConfig_S env settings settle packs w =
     (let extended = extendAll env settings (settle (specsOfPacks env packs)) w;
          classified = classifyAll env (fst extended) (snd extended);
          rolled = rollback env (fst classified) (snd classified)
      in ((fst classified, None), fst rolled, snd rolled))"
  using assms
  by (simp add: extendConfig_S_def Let_def do_op_def bufferAllResults_apply buffered_classify
      buffered_extend fromArray_def rollback_noted rollback_length)

lemma extendConfig_S_conflict:
  "checkConflicts env (groupSpecsById env (specsOfPacks env packs)) = Some err \<Longrightarrow>
   extendConfig_S env settings settle packs w = (([], Some err), [], w)"
  by (simp add: extendConfig_S_def)

lemma extendConfig_S_ok_obs:
  assumes "checkConflicts env (groupSpecsById env (specsOfPacks env packs)) = None"
  shows "snd (fst (extendConfig_S env settings settle packs w)) = None"
  using assms by (simp add: extendConfig_S_closed Let_def)

lemma extendConfig_S_ok_enabled:
  assumes "checkConflicts env (groupSpecsById env (specsOfPacks env packs)) = None"
  shows "mergeMapArray enabledSpecs (fst (extendConfig_S env settings settle packs w)) =
     (filter (enabled_spec env (mergedConfig env settings (config w) (settle (specsOfPacks env packs))))
        (settle (specsOfPacks env packs)), None)"
  using assms
  by (simp add: extendConfig_S_closed Let_def mergeMapArray_def
      classifyAll_enabledSpecs extendAll_config extendAll_spec)

lemma extendConfig_S_ok_disabled:
  assumes "checkConflicts env (groupSpecsById env (specsOfPacks env packs)) = None"
  shows "mergeMapArray disabledSpecs (fst (extendConfig_S env settings settle packs w)) =
     (filter (\<lambda>s. \<not> enabled_spec env (mergedConfig env settings (config w) (settle (specsOfPacks env packs))) s)
        (settle (specsOfPacks env packs)), None)"
  using assms
  by (simp add: extendConfig_S_closed Let_def mergeMapArray_def
      classifyAll_disabledSpecs extendAll_config extendAll_spec)

lemma extendConfig_S_ok_invalid:
  assumes "checkConflicts env (groupSpecsById env (specsOfPacks env packs)) = None"
  shows "mergeMapArray invalidVersionSpecs (fst (extendConfig_S env settings settle packs w)) =
     (filter (\<lambda>s. \<not> isRightVersion_spec env (mergedConfig env settings (config w) (settle (specsOfPacks env packs))) s)
        (settle (specsOfPacks env packs)), None)"
  using assms
  by (simp add: extendConfig_S_closed Let_def mergeMapArray_def
      classifyAll_invalidVersionSpecs extendAll_config extendAll_spec)

lemma extendConfig_S_ok_trace:
  assumes "checkConflicts env (groupSpecsById env (specsOfPacks env packs)) = None"
  shows "trace (snd (snd (extendConfig_S env settings settle packs w))) =
     trace w @ map Extend (settle (specsOfPacks env packs)) @
     concat (map (checksOf env (mergedConfig env settings (config w) (settle (specsOfPacks env packs))))
        (settle (specsOfPacks env packs))) @
     map Disable (filter (\<lambda>s. \<not> enabled_spec env (mergedConfig env settings (config w) (settle (specsOfPacks env packs))) s)
        (settle (specsOfPacks env packs)))"
  using assms
  by (simp add: extendConfig_S_closed Let_def rollback_trace
      classifyAll_trace classifyAll_disabledSpecs classifyAll_config extendAll_trace extendAll_config extendAll_spec)

lemma extendConfig_S_ok_config:
  assumes "checkConflicts env (groupSpecsById env (specsOfPacks env packs)) = None"
  shows "config (snd (snd (extendConfig_S env settings settle packs w))) =
     rolledBackConfig env (mergedConfig env settings (config w) (settle (specsOfPacks env packs)))
       (filter (\<lambda>s. \<not> enabled_spec env (mergedConfig env settings (config w) (settle (specsOfPacks env packs))) s)
        (settle (specsOfPacks env packs)))"
  using assms
  by (simp add: extendConfig_S_closed Let_def rollback_config
      classifyAll_disabledSpecs classifyAll_config extendAll_config extendAll_spec)

lemma mset_settleBy: "mset (settleBy order xs) = mset xs"
proof (induction order arbitrary: xs)
  case Nil
  show ?case by simp
next
  case (Cons i order)
  show ?case
  proof (cases "i < length xs")
    case True
    then have "xs = take i xs @ xs ! i # drop (Suc i) xs" by (rule id_take_nth_drop)
    then have "mset xs = mset (xs ! i # take i xs @ drop (Suc i) xs)"
      by (metis mset.simps(2) mset_append union_mset_add_mset_right)
    with True Cons.IH [of "take i xs @ drop (Suc i) xs"] show ?thesis by simp
  next
    case False
    with Cons.IH [of xs] show ?thesis by simp
  qed
qed

lemma findPluginSpecs_unfold:
  "findPluginSpecs env settings cfg arrival order =
     (let c = resolvedConfig env settings cfg;
          packageJsonResults = dedupe env (locate env arrival c);
          packResults = packResultsOf env arrival c;
          ec = extendConfig_S env settings (settleBy order) packResults \<lparr>config = c, trace = []\<rparr>
      in (\<lparr>packageJson_S =
             (concat (map (\<lambda>r. case packageJson r of Some pj \<Rightarrow> [pj] | None \<Rightarrow> [])
                packageJsonResults), None),
           pack_S =
             (concat (map (\<lambda>r. case pack r of Some p \<Rightarrow> [p] | None \<Rightarrow> []) packResults), None),
           invalidDirectoryError_S = (errorsWhere (isInvalidDirectoryError env) packResults, None),
           invalidPackError_S = (errorsWhere (isInvalidPackError env) packResults, None),
           otherError_S = (errorsWhere (isUnhandledError env) packResults, None),
           deprecation_S = mergeMapArray deprecations (fst ec),
           extendedConfig_S = extendedConfigOf env (fst ec) (fst (snd ec)),
           spec_S = mergeMapArray enabledSpecs (fst ec),
           disabledSpec_S = mergeMapArray disabledSpecs (fst ec),
           invalidVersionSpec_S = mergeMapArray invalidVersionSpecs (fst ec)\<rparr>,
          snd (snd ec),
          \<lparr>cached = Some c, deferRuns = 1,
           defaultConfigCalls = (case cfg of Some c \<Rightarrow> 0 | None \<Rightarrow> 1)\<rparr>))"
  by (simp add: findPluginSpecs_def config_S_first config_S_cached Let_def case_prod_unfold packResultsOf_def)

lemma enabled_filters_partition:
  "set (filter P xs) \<inter> set (filter (\<lambda>s. \<not> P s) xs) = {} \<and>
   set (filter P xs) \<union> set (filter (\<lambda>s. \<not> P s) xs) = set xs \<and>
   mset (filter P xs) + mset (filter (\<lambda>s. \<not> P s) xs) = mset xs"
  by auto

lemma survivingSpecs_ok:
  "checkConflicts env (groupSpecsById env xs) = None \<Longrightarrow> survivingSpecs env xs = xs"
  by (simp add: survivingSpecs_def)

lemma survivingSpecs_conflict:
  "checkConflicts env (groupSpecsById env xs) = Some err \<Longrightarrow> survivingSpecs env xs = []"
  by (simp add: survivingSpecs_def)

lemma sorted_map_const: "\<forall>x\<in>set xs. f x = (c::nat) \<Longrightarrow> sorted (map f xs)"
  by (induction xs) auto

lemma sorted_three_phases:
  assumes "\<forall>e\<in>set A. phase e = 0" "\<forall>e\<in>set B. phase e = 1" "\<forall>e\<in>set C. phase e = 2"
  shows "sorted (map phase (A @ B @ C))"
  using assms sorted_map_const [of A phase 0] sorted_map_const [of B phase 1]
    sorted_map_const [of C phase 2]
  by (auto simp: sorted_append)

lemma phase_checksOf: "e \<in> set (concat (map (checksOf env c) xs)) \<Longrightarrow> phase e = 1"
  by (auto simp: checksOf_def split: if_splits)

lemma VersionCheck_in_checks:
  "VersionCheck s \<in> set (concat (map (checksOf env c) xs)) \<longleftrightarrow> s \<in> set xs"
  by (auto simp: checksOf_def split: if_splits)

lemma findPluginSpecs_world:
  "fst (snd (findPluginSpecs env settings cfg arrival order)) =
     snd (snd (extendConfig_S env settings (settleBy order)
        (packResultsOf env arrival (resolvedConfig env settings cfg))
        \<lparr>config = resolvedConfig env settings cfg, trace = []\<rparr>))"
  by (simp add: findPluginSpecs_unfold Let_def)

lemma classifyOne_record:
  "fst (classifyOne env x w) =
     \<lparr>spec = spec x, deprecations = deprecations x,
      enabledSpecs = (if enabled_spec env (config w) (spec x) then [spec x] else []),
      disabledSpecs = (if enabled_spec env (config w) (spec x) then [] else [spec x]),
      invalidVersionSpecs = (if isRightVersion_spec env (config w) (spec x) then [] else [spec x])\<rparr>"
  by (simp add: classifyOne_def Let_def enabled_spec_def isRightVersion_spec_def)

text \<open>The calls of a run without conflict, and the configuration it leaves.\<close>

lemma run_trace:
  assumes "checkConflicts env (groupSpecsById env (collectedSpecs env settings cfg arrival)) = None"
  shows "trace (fst (snd (findPluginSpecs env settings cfg arrival order))) =
         map Extend (settledSpecs env settings cfg arrival order) @
         concat (map (checksOf env (fullyMerged env settings cfg arrival order))
                   (settledSpecs env settings cfg arrival order)) @
         map Disable (filter (\<lambda>s. \<not> enabled_spec env (fullyMerged env settings cfg arrival order) s)
                   (settledSpecs env settings cfg arrival order))"
proof -
  have ok: "checkConflicts env (groupSpecsById env
              (specsOfPacks env (packResultsOf env arrival (resolvedConfig env settings cfg)))) = None"
    using assms by (simp add: collectedSpecs_def)
  show ?thesis
    by (simp add: findPluginSpecs_world extendConfig_S_ok_trace [OF ok] fullyMerged_def settledSpecs_def
        collectedSpecs_def)
qed

lemma run_config:
  assumes "checkConflicts env (groupSpecsById env (collectedSpecs env settings cfg arrival)) = None"
  shows "config (fst (snd (findPluginSpecs env settings cfg arrival order))) =
         rolledBackConfig env (fullyMerged env settings cfg arrival order)
           (filter (\<lambda>s. \<not> enabled_spec env (fullyMerged env settings cfg arrival order) s)
              (settledSpecs env settings cfg arrival order))"
proof -
  have ok: "checkConflicts env (groupSpecsById env
              (specsOfPacks env (packResultsOf env arrival (resolvedConfig env settings cfg)))) = None"
    using assms by (simp add: collectedSpecs_def)
  show ?thesis
    by (simp add: findPluginSpecs_world extendConfig_S_ok_config [OF ok] fullyMerged_def settledSpecs_def
        collectedSpecs_def)
qed

lemma set_settledSpecs:
  "set (settledSpecs env settings cfg arrival order) = set (collectedSpecs env settings cfg arrival)"
proof -
  have "mset (settledSpecs env settings cfg arrival order) = mset (collectedSpecs env settings cfg arrival)"
    by (simp add: settledSpecs_def mset_settleBy)
  then show ?thesis by (rule mset_eq_setD)
qed

lemma mergedConfig_contributions:
  "contributions (mergedConfig (withPluginConfig messages env) settings c xs) = contributions c @ xs"
proof -
  have "contributions (foldl (\<lambda>c s. fst (extendConfigService_spec messages s c settings)) c xs) =
          contributions c @ xs"
    by (induction xs arbitrary: c) (simp_all add: extendConfigService_spec_def)
  then show ?thesis by (simp add: mergedConfig_def withPluginConfig_def)
qed

lemma rolledBackConfig_contributions:
  "contributions (rolledBackConfig (withPluginConfig messages env) c ds) =
     filter (\<lambda>s. s \<notin> set ds) (contributions c)"
proof -
  have "contributions (foldl (\<lambda>c s. disableConfigExtension_spec s c) c ds) =
          filter (\<lambda>s. s \<notin> set ds) (contributions c)"
  proof (induction ds arbitrary: c)
    case Nil
    show ?case by simp
  next
    case (Cons d ds)
    have "filter (\<lambda>s. s \<notin> set ds) (removeAll d ys) = filter (\<lambda>s. s \<notin> set (d # ds)) ys" for ys
      by (induction ys) auto
    from this [of "contributions c"] Cons.IH [of "disableConfigExtension_spec d c"] show ?case
      by (simp add: disableConfigExtension_spec_def)
  qed
  then show ?thesis by (simp add: rolledBackConfig_def withPluginConfig_def)
qed

subsection \<open>Grouping by identifier and the conflict check\<close>

lemma distinctFrom_snoc:
  "distinctFrom key seen (xs @ [x]) =
     distinctFrom key seen xs @ (if key x \<in> seen \<union> key ` set xs then [] else [x])"
  by (induction xs arbitrary: seen) auto

lemma distinctFrom_keys:
  "set (map key (distinctFrom key seen xs)) = key ` set xs - seen"
  by (induction xs arbitrary: seen) auto

lemma distinctFrom_distinct:
  "distinct (map key (distinctFrom key seen xs))"
  by (induction xs arbitrary: seen) (auto simp: distinctFrom_keys [simplified])

lemma pushSpec_map:
  assumes "distinct js"
  shows "pushSpec i x (map (\<lambda>j. (j, f j)) js) =
     (if i \<in> set js then map (\<lambda>j. (j, if j = i then f j @ [x] else f j)) js
      else map (\<lambda>j. (j, f j)) js @ [(i, [x])])"
  using assms by (induction js) auto

lemma groupSpecsById_snoc:
  "groupSpecsById env (xs @ [x]) = pushSpec (getId env x) x (groupSpecsById env xs)"
  by (simp add: groupSpecsById_def)

lemma groupSpecsById_char:
  "groupSpecsById env specs =
     map (\<lambda>i. (i, filter (\<lambda>s. getId env s = i) specs))
       (map (getId env) (distinctBy (getId env) specs))"
proof (induction specs rule: rev_induct)
  case Nil
  show ?case by (simp add: groupSpecsById_def distinctBy_def)
next
  case (snoc x xs)
  let ?js = "map (getId env) (distinctBy (getId env) xs)"
  have d: "distinct ?js" by (simp add: distinctBy_def distinctFrom_distinct)
  have k: "set ?js = getId env ` set xs"
    using distinctFrom_keys [of "getId env" "{}" xs] by (simp add: distinctBy_def)
  show ?case
  proof (cases "getId env x \<in> getId env ` set xs")
    case True
    then have "distinctBy (getId env) (xs @ [x]) = distinctBy (getId env) xs"
      by (simp add: distinctBy_def distinctFrom_snoc)
    then show ?thesis
      using True k snoc.IH pushSpec_map [OF d, of "getId env x" x "\<lambda>i. filter (\<lambda>s. getId env s = i) xs"]
      by (auto simp: groupSpecsById_snoc)
  next
    case False
    then have e: "distinctBy (getId env) (xs @ [x]) = distinctBy (getId env) xs @ [x]"
      by (simp add: distinctBy_def distinctFrom_snoc)
    have n: "filter (\<lambda>s. getId env s = getId env x) xs = []"
    proof -
      have "\<forall>s\<in>set xs. getId env s \<noteq> getId env x" using False by (metis imageI)
      then show ?thesis by (simp add: filter_empty_conv)
    qed
    show ?thesis
      using False k n snoc.IH pushSpec_map [OF d, of "getId env x" x "\<lambda>i. filter (\<lambda>s. getId env s = i) xs"]
      by (auto simp: groupSpecsById_snoc e)
  qed
qed

lemma checkConflicts_map:
  "checkConflicts env (map (\<lambda>i. (i, g i)) js) =
     (case find (\<lambda>i. 1 < length (g i)) js of
        None \<Rightarrow> None
      | Some i \<Rightarrow> Some (Error (conflictMessage env i (g i))))"
  by (induction js) auto

lemma find_distinctFrom:
  "find Q (map key (distinctFrom key seen xs)) =
     map_option key (find (\<lambda>x. Q (key x) \<and> key x \<notin> seen) xs)"
proof (induction xs arbitrary: seen)
  case Nil
  show ?case by simp
next
  case (Cons x xs)
  show ?case
  proof (cases "key x \<in> seen")
    case True
    then show ?thesis using Cons.IH [of seen] by simp
  next
    case False
    show ?thesis
    proof (cases "Q (key x)")
      case True
      with False show ?thesis by simp
    next
      case nq: False
      have "find (\<lambda>y. Q (key y) \<and> key y \<notin> insert (key x) seen) xs =
            find (\<lambda>y. Q (key y) \<and> key y \<notin> seen) xs"
        using nq by (intro find_cong) auto
      with False nq show ?thesis using Cons.IH [of "insert (key x) seen"] by simp
    qed
  qed
qed

lemma checkConflicts_groupSpecsById:
  "checkConflicts env (groupSpecsById env specs) =
     (case find (\<lambda>s. 1 < length (filter (\<lambda>t. getId env t = getId env s) specs)) specs of
        None \<Rightarrow> None
      | Some s0 \<Rightarrow>
          Some (Error (conflictMessage env (getId env s0)
                  (filter (\<lambda>t. getId env t = getId env s0) specs))))"
proof -
  let ?g = "\<lambda>i. filter (\<lambda>t. getId env t = i) specs"
  have 1: "checkConflicts env (groupSpecsById env specs) =
     (case find (\<lambda>i. 1 < length (?g i)) (map (getId env) (distinctFrom (getId env) {} specs)) of
        None \<Rightarrow> None
      | Some i \<Rightarrow> Some (Error (conflictMessage env i (?g i))))"
    unfolding groupSpecsById_char distinctBy_def by (rule checkConflicts_map)
  have 2: "find (\<lambda>i. 1 < length (?g i)) (map (getId env) (distinctFrom (getId env) {} specs)) =
     map_option (getId env) (find (\<lambda>s. 1 < length (?g (getId env s))) specs)"
    using find_distinctFrom [of "\<lambda>i. 1 < length (?g i)" "getId env" "{}" specs] by simp
  show ?thesis
    unfolding 1 2 by (simp split: option.splits)
qed

lemma length_filter_le_1_distinct:
  "distinct (map f xs) \<longleftrightarrow> (\<forall>x\<in>set xs. length (filter (\<lambda>t. f t = f x) xs) \<le> 1)"
proof (induction xs)
  case Nil
  show ?case by simp
next
  case (Cons a xs)
  show ?case
  proof (cases "f a \<in> f ` set xs")
    case True
    then obtain b where b: "b \<in> set xs" "f b = f a" by (metis imageE)
    then have "filter (\<lambda>t. f t = f a) xs \<noteq> []"
      by (auto simp: filter_empty_conv)
    then have "length (filter (\<lambda>t. f t = f a) xs) \<ge> 1"
      by (cases "filter (\<lambda>t. f t = f a) xs") auto
    with True show ?thesis by auto
  next
    case False
    then have n: "\<forall>s\<in>set xs. f s \<noteq> f a" by (metis imageI)
    then have e: "filter (\<lambda>t. f t = f a) xs = []" by (simp add: filter_empty_conv)
    have "\<forall>x\<in>set xs. filter (\<lambda>t. f t = f x) (a # xs) = filter (\<lambda>t. f t = f x) xs"
      using n by auto
    with False e Cons.IH show ?thesis by auto
  qed
qed

lemma find_duplicate_None:
  "find (\<lambda>s. 1 < length (filter (\<lambda>t. f t = f s) xs)) xs = None \<longleftrightarrow> distinct (map f xs)"
  by (auto simp: find_None_iff length_filter_le_1_distinct [of f xs] not_less)

lemma sublist_join: "x \<in> set xs \<Longrightarrow> sublist x (join sep xs)"
proof (induction sep xs rule: join.induct)
  case (1 sep)
  then show ?case by simp
next
  case (2 sep y)
  then show ?case by simp
next
  case (3 sep y z zs)
  show ?case
  proof (cases "x = y")
    case True
    have "sublist y (y @ sep @ join sep (z # zs))" by (rule sublist_append_rightI)
    with True show ?thesis by simp
  next
    case False
    with 3 have "sublist x (join sep (z # zs))" by simp
    then obtain ps ss where "join sep (z # zs) = ps @ x @ ss"
      unfolding sublist_def by blast
    then have "join sep (y # z # zs) = (y @ sep @ ps) @ x @ ss" by simp
    then show ?thesis unfolding sublist_def by blast
  qed
qed

lemma conflictMessage_names:
  assumes "s \<in> set specs"
  shows "sublist ident (conflictMessage env ident specs) \<and>
         sublist (getPath env s) (conflictMessage env ident specs)"
proof -
  let ?line = "\<lambda>s. ''  - '' @ ident @ '' at '' @ getPath env s"
  define hd1 where \<open>hd1 = ''Multple plugins found with the id "''\<close>
  define hd2 where \<open>hd2 = ''":\<newline>''\<close>
  have m: "conflictMessage env ident specs =
      hd1 @ ident @ hd2 @ join [CHR 0x0A] (map ?line specs)"
    by (simp add: conflictMessage_def hd1_def hd2_def)
  have "sublist (?line s) (join [CHR 0x0A] (map ?line specs))"
    using assms by (intro sublist_join) simp
  then obtain ps ss where j: "join [CHR 0x0A] (map ?line specs) = ps @ ?line s @ ss"
    unfolding sublist_def by blast
  have "conflictMessage env ident specs =
      (hd1 @ ident @ hd2 @ ps @ ''  - '' @ ident @ '' at '') @ getPath env s @ ss"
    unfolding m j by simp
  then have "sublist (getPath env s) (conflictMessage env ident specs)"
    unfolding sublist_def by blast
  moreover have "conflictMessage env ident specs =
      hd1 @ ident @ (hd2 @ join [CHR 0x0A] (map ?line specs))"
    unfolding m by simp
  then have "sublist ident (conflictMessage env ident specs)"
    unfolding sublist_def by blast
  ultimately show ?thesis by simp
qed

lemma firstDuplicated_Some:
  assumes "\<not> distinct (map (getId env) specs)"
  obtains s0 where "firstDuplicated env specs = Some s0" "s0 \<in> set specs"
    "1 < length (filter (\<lambda>t. getId env t = getId env s0) specs)"
proof -
  have "firstDuplicated env specs \<noteq> None"
    using assms find_duplicate_None [of "getId env" specs] by (simp add: firstDuplicated_def)
  then obtain s0 where s: "firstDuplicated env specs = Some s0" by auto
  then have "s0 \<in> set specs \<and> 1 < length (filter (\<lambda>t. getId env t = getId env s0) specs)"
    unfolding firstDuplicated_def by (auto simp: find_Some_iff)
  with s that show thesis by blast
qed

subsection \<open>Deduplication\<close>

lemma distinctBy_keys_distinct: "distinct (map key (distinctBy key xs))"
  by (simp add: distinctBy_def distinctFrom_distinct)

lemma distinctBy_keys: "set (map key (distinctBy key xs)) = key ` set xs"
  using distinctFrom_keys [of key "{}" xs] by (simp add: distinctBy_def)

lemma distinctBy_snoc:
  "distinctBy key (xs @ [x]) = distinctBy key xs @ (if key x \<in> key ` set xs then [] else [x])"
  by (simp add: distinctBy_def distinctFrom_snoc)

text \<open>A value passes iff no value before it has its key.\<close>

lemma distinctBy_first:
  "distinctBy key xs =
     map (\<lambda>i. xs ! i) (filter (\<lambda>i. key (xs ! i) \<notin> key ` set (take i xs)) [0..<length xs])"
proof (induction xs rule: rev_induct)
  case Nil
  show ?case by (simp add: distinctBy_def)
next
  case (snoc x xs)
  have a: "filter (\<lambda>i. key ((xs @ [x]) ! i) \<notin> key ` set (take i (xs @ [x]))) [0..<length xs] =
           filter (\<lambda>i. key (xs ! i) \<notin> key ` set (take i xs)) [0..<length xs]"
    by (intro filter_cong) (simp_all add: nth_append)
  have b: "map (\<lambda>i. (xs @ [x]) ! i) (filter P [0..<length xs]) =
           map (\<lambda>i. xs ! i) (filter P [0..<length xs])" for P
    by (intro map_cong) (simp_all add: nth_append)
  have c: "take (length xs) (xs @ [x]) = xs" "(xs @ [x]) ! length xs = x"
    by simp_all
  have "map (\<lambda>i. (xs @ [x]) ! i)
          (filter (\<lambda>i. key ((xs @ [x]) ! i) \<notin> key ` set (take i (xs @ [x]))) [0..<length (xs @ [x])]) =
        map (\<lambda>i. (xs @ [x]) ! i)
          (filter (\<lambda>i. key ((xs @ [x]) ! i) \<notin> key ` set (take i (xs @ [x]))) [0..<length xs]) @
        (if key x \<in> key ` set xs then [] else [x])"
    by (simp add: c del: take_append)
  then show ?case
    unfolding a b distinctBy_snoc snoc.IH by simp
qed

lemma distinctFrom_subset: "set (distinctFrom key seen xs) \<subseteq> set xs"
  by (induction xs arbitrary: seen) auto

lemma distinctBy_subset: "set (distinctBy key xs) \<subseteq> set xs"
  by (simp add: distinctBy_def distinctFrom_subset)

lemma distinct_card_length: "distinct (map f xs) \<Longrightarrow> length xs = card (f ` set xs)"
  by (metis distinct_card length_map list.set_map)

text \<open>With pairwise distinct keys, a key that occurs is the key of exactly one value.\<close>

lemma one_for_each_key:
  "distinct (map f xs) \<Longrightarrow> k \<in> f ` set xs \<Longrightarrow> length (filter (\<lambda>x. f x = k) xs) = 1"
proof (induction xs)
  case Nil
  then show ?case by simp
next
  case (Cons a xs)
  show ?case
  proof (cases "f a = k")
    case True
    with Cons.prems(1) have "\<forall>x\<in>set xs. f x \<noteq> k" by (metis distinct.simps(2) imageI list.simps(9) list.set_map)
    then have "filter (\<lambda>x. f x = k) xs = []" by (simp add: filter_empty_conv)
    with True show ?thesis by simp
  next
    case False
    with Cons show ?thesis by auto
  qed
qed

lemma descriptors_distinct:
  assumes "distinct (map (getDistinctKeyForFindResult env) ps)"
    and "\<forall>p\<in>set ps. wellShaped p"
  shows "distinct (map (\<lambda>pj. realpathSync env (directoryPath pj))
           (concat (map (\<lambda>r. case packageJson r of Some pj \<Rightarrow> [pj] | None \<Rightarrow> []) ps)))"
  using assms
proof (induction ps)
  case Nil
  show ?case by simp
next
  case (Cons p ps)
  show ?case
  proof (cases "packageJson p")
    case None
    with Cons show ?thesis by simp
  next
    case (Some pj)
    with Cons.prems(2) have e: "error p = None" by (simp add: wellShaped_def)
    have kp: "getDistinctKeyForFindResult env p = KString (realpathSync env (directoryPath pj))"
      using Some e by (simp add: getDistinctKeyForFindResult_def)
    have "realpathSync env (directoryPath pj) \<notin>
            (\<lambda>pj. realpathSync env (directoryPath pj)) `
              set (concat (map (\<lambda>r. case packageJson r of Some pj \<Rightarrow> [pj] | None \<Rightarrow> []) ps))"
    proof
      assume "realpathSync env (directoryPath pj) \<in>
            (\<lambda>pj. realpathSync env (directoryPath pj)) `
              set (concat (map (\<lambda>r. case packageJson r of Some pj \<Rightarrow> [pj] | None \<Rightarrow> []) ps))"
      then obtain pj' where a: "pj' \<in> set (concat (map (\<lambda>r. case packageJson r of Some pj \<Rightarrow> [pj] | None \<Rightarrow> []) ps))"
        and b: "realpathSync env (directoryPath pj) = realpathSync env (directoryPath pj')"
        by (rule imageE)
      from a obtain q where q1: "q \<in> set ps"
        and q2: "pj' \<in> set (case packageJson q of Some pj \<Rightarrow> [pj] | None \<Rightarrow> [])"
        by auto
      from q2 have q3: "packageJson q = Some pj'" by (cases "packageJson q") auto
      note q = q1 q3 b [symmetric]
      with Cons.prems(2) have "error q = None" by (auto simp: wellShaped_def)
      with q have "getDistinctKeyForFindResult env q =
                     KString (realpathSync env (directoryPath pj))"
        by (simp add: getDistinctKeyForFindResult_def)
      with kp have "getDistinctKeyForFindResult env q = getDistinctKeyForFindResult env p"
        by simp
      with q(1) Cons.prems(1) show False by (metis distinct.simps(2) image_eqI list.simps(9) list.set_map)
    qed
    with Some Cons show ?thesis by simp
  qed
qed

lemma error_messages_distinct:
  assumes "distinct (map (getDistinctKeyForFindResult env) ps)"
  shows "distinct (map (errorMessage env)
           (concat (map (\<lambda>r. case error r of Some e \<Rightarrow> [e] | None \<Rightarrow> []) ps)))"
  using assms
proof (induction ps)
  case Nil
  show ?case by simp
next
  case (Cons p ps)
  show ?case
  proof (cases "error p")
    case None
    with Cons show ?thesis by simp
  next
    case (Some e)
    have kp: "getDistinctKeyForFindResult env p = KString (errorMessage env e)"
      using Some by (simp add: getDistinctKeyForFindResult_def)
    have "errorMessage env e \<notin> errorMessage env `
            set (concat (map (\<lambda>r. case error r of Some e \<Rightarrow> [e] | None \<Rightarrow> []) ps))"
    proof
      assume "errorMessage env e \<in> errorMessage env `
            set (concat (map (\<lambda>r. case error r of Some e \<Rightarrow> [e] | None \<Rightarrow> []) ps))"
      then obtain e' where a: "e' \<in> set (concat (map (\<lambda>r. case error r of Some e \<Rightarrow> [e] | None \<Rightarrow> []) ps))"
        and b: "errorMessage env e = errorMessage env e'"
        by (rule imageE)
      from a obtain q where q1: "q \<in> set ps"
        and q2: "e' \<in> set (case error q of Some e \<Rightarrow> [e] | None \<Rightarrow> [])"
        by auto
      from q2 have q3: "error q = Some e'" by (cases "error q") auto
      then have "getDistinctKeyForFindResult env q = KString (errorMessage env e)"
        using b by (simp add: getDistinctKeyForFindResult_def)
      with kp have "getDistinctKeyForFindResult env q = getDistinctKeyForFindResult env p"
        by simp
      with q1 Cons.prems show False
        by (metis distinct.simps(2) image_eqI list.simps(9) list.set_map)
    qed
    with Some Cons show ?thesis by simp
  qed
qed

subsection \<open>The configuration source and the error channels\<close>

lemma subscribeAll_cached:
  "cached src = Some c \<Longrightarrow> subscribeAll env settings cfg n src = (replicate n c, src)"
  by (induction n) (simp_all add: config_S_cached)

lemma subscribeAll_new:
  "fst (subscribeAll env settings cfg n newSource) = replicate n (resolvedConfig env settings cfg) \<and>
   deferRuns (snd (subscribeAll env settings cfg n newSource)) = (if n = 0 then 0 else 1) \<and>
   defaultConfigCalls (snd (subscribeAll env settings cfg n newSource)) =
     (if n = 0 \<or> cfg \<noteq> None then 0 else 1)"
proof (cases n)
  case 0
  then show ?thesis by (simp add: newSource_def)
next
  case (Suc m)
  then show ?thesis
    by (simp add: config_S_first subscribeAll_cached split: option.splits)
qed

lemma errorsWhere_filter: "errorsWhere p packs = filter p (map error packs)"
  by (induction packs) (simp_all add: errorsWhere_def)

lemma count_routed:
  assumes "\<not> (isInvalidDirectoryError env (Some e) \<and> isInvalidPackError env (Some e))"
  shows "count_list (filter (isInvalidDirectoryError env) es) (Some e) +
         count_list (filter (isInvalidPackError env) es) (Some e) +
         count_list (filter (isUnhandledError env) es) (Some e) = count_list es (Some e)"
  using assms by (induction es) (auto simp: isUnhandledError_def)

lemma count_routed_twice:
  assumes "isInvalidDirectoryError env (Some e) \<and> isInvalidPackError env (Some e)"
  shows "count_list (filter (isInvalidDirectoryError env) es) (Some e) +
         count_list (filter (isInvalidPackError env) es) (Some e) +
         count_list (filter (isUnhandledError env) es) (Some e) = 2 * count_list es (Some e)"
  using assms by (induction es) (auto simp: isUnhandledError_def)

lemma count_list_filter:
  "count_list (filter p xs) x = (if p x then count_list xs x else 0)"
  by (induction xs) auto

lemma mergeBy_Nil: "mergeBy sched [] = []"
  by (induction sched) simp_all

lemma settleBy_Nil: "settleBy order [] = []"
  by (induction order) simp_all

subsection \<open>Results without a pack\<close>

text \<open>
  C9. A pack result that carries no pack contributes no spec. With the result in the
  stream or without it, \<open>extendConfig$\<close> does the same: it detects the same conflicts,
  calls the same routines in the same order, leaves the same configuration and emits the
  same classified records, from which \<open>spec$\<close>, \<open>disabledSpec$\<close> and \<open>invalidVersionSpec$\<close> are
  projected. The stage does not fail on such a result.
\<close>

theorem packless_result_contributes_no_spec:
  assumes "pack r = None"
  shows "specsOfPacks env [r] = [] \<and>
         extendConfig_S env settings settle (before @ r # after) w =
         extendConfig_S env settings settle (before @ after) w"
  using assms by (simp add: extendConfig_S_def specsOfPacks_skip specsOfPacks_no_pack)

theorem packless_result_contributes_no_spec_witness:
  "pack \<lparr>error = Some (Unexpected ''x''), pack = None\<rparr> = None \<and>
   specsOfPacks sampleEnv [\<lparr>error = Some (Unexpected ''x''), pack = None\<rparr>] = [] \<and>
   extendConfig_S sampleEnv [] rev
     ([\<lparr>error = None, pack = Some [specA]\<rparr>] @
      \<lparr>error = Some (Unexpected ''x''), pack = None\<rparr> #
      [\<lparr>error = None, pack = Some [specB]\<rparr>]) world0 =
   extendConfig_S sampleEnv [] rev
     ([\<lparr>error = None, pack = Some [specA]\<rparr>] @ [\<lparr>error = None, pack = Some [specB]\<rparr>]) world0"
  using packless_result_contributes_no_spec
          [of "\<lparr>error = Some (Unexpected ''x''), pack = None\<rparr>" sampleEnv "[]" rev
              "[\<lparr>error = None, pack = Some [specA]\<rparr>]" "[\<lparr>error = None, pack = Some [specB]\<rparr>]"
              world0]
  by simp

subsection \<open>A sample run\<close>

lemma sample_collected:
  "collectedSpecs sampleEnv [''b''] (Some sampleConfig0) [2, 0, 3, 2] =
     [specA, specOld, specOff, specB]"
  by code_simp

lemma sample_no_conflict:
  "checkConflicts sampleEnv (groupSpecsById sampleEnv
     (collectedSpecs sampleEnv [''b''] (Some sampleConfig0) [2, 0, 3, 2])) = None"
  by code_simp

subsection \<open>The order of extension, classification and rollback\<close>

text \<open>
  C2. In every run the calls to the routines of the specs come in three phases that never
  go back: extensions, then version and enablement checks, then disable routines. When
  no conflict is found, the calls are: the extension of every collected spec (in the
  order in which they settle), then the checks of every spec, each against the
  configuration that all the extensions have produced, then the disable routine of
  exactly the specs that are not enabled, applied to that configuration.
  With the routines of \<open>./plugin_config\<close> as the specification describes them, that
  configuration, which the checks read and which is there when the first disable routine
  runs, reflects the contribution of every collected spec; and the configuration left
  after the rollback reflects the contribution of a collected spec iff the spec is
  enabled, so that of no disabled spec.
\<close>

theorem extension_then_classification_then_rollback:
  "sorted (map phase (trace (fst (snd (findPluginSpecs env settings cfg arrival order))))) \<and>
   (checkConflicts env (groupSpecsById env (collectedSpecs env settings cfg arrival)) = None \<longrightarrow>
      trace (fst (snd (findPluginSpecs env settings cfg arrival order))) =
        map Extend (settledSpecs env settings cfg arrival order) @
        concat (map (checksOf env (fullyMerged env settings cfg arrival order))
                  (settledSpecs env settings cfg arrival order)) @
        map Disable (filter (\<lambda>s. \<not> enabled_spec env (fullyMerged env settings cfg arrival order) s)
                  (settledSpecs env settings cfg arrival order)) \<and>
      config (fst (snd (findPluginSpecs env settings cfg arrival order))) =
        rolledBackConfig env (fullyMerged env settings cfg arrival order)
          (filter (\<lambda>s. \<not> enabled_spec env (fullyMerged env settings cfg arrival order) s)
             (settledSpecs env settings cfg arrival order)) \<and>
      (\<forall>s \<in> set (collectedSpecs env settings cfg arrival).
         Extend s \<in> set (trace (fst (snd (findPluginSpecs env settings cfg arrival order)))) \<and>
         VersionCheck s \<in> set (trace (fst (snd (findPluginSpecs env settings cfg arrival order)))) \<and>
         (Disable s \<in> set (trace (fst (snd (findPluginSpecs env settings cfg arrival order))))
            \<longleftrightarrow> \<not> enabled_spec env (fullyMerged env settings cfg arrival order) s))) \<and>
   (let modelled = withPluginConfig messages env';
        found = collectedSpecs modelled settings' cfg' arrival';
        merged = fullyMerged modelled settings' cfg' arrival' order';
        left = config (fst (snd (findPluginSpecs modelled settings' cfg' arrival' order')))
    in checkConflicts modelled (groupSpecsById modelled found) = None \<longrightarrow>
         contributions merged =
           contributions (resolvedConfig modelled settings' cfg') @
           settledSpecs modelled settings' cfg' arrival' order' \<and>
         contributions left =
           filter (\<lambda>s. s \<notin> set found \<or> enabled_spec modelled merged s) (contributions merged) \<and>
         (\<forall>s \<in> set found.
            reflects merged s \<and> (reflects left s \<longleftrightarrow> enabled_spec modelled merged s)))"
proof -
  have general: "sorted (map phase (trace (fst (snd (findPluginSpecs env settings cfg arrival order))))) \<and>
   (checkConflicts env (groupSpecsById env (collectedSpecs env settings cfg arrival)) = None \<longrightarrow>
      trace (fst (snd (findPluginSpecs env settings cfg arrival order))) =
        map Extend (settledSpecs env settings cfg arrival order) @
        concat (map (checksOf env (fullyMerged env settings cfg arrival order))
                  (settledSpecs env settings cfg arrival order)) @
        map Disable (filter (\<lambda>s. \<not> enabled_spec env (fullyMerged env settings cfg arrival order) s)
                  (settledSpecs env settings cfg arrival order)) \<and>
      config (fst (snd (findPluginSpecs env settings cfg arrival order))) =
        rolledBackConfig env (fullyMerged env settings cfg arrival order)
          (filter (\<lambda>s. \<not> enabled_spec env (fullyMerged env settings cfg arrival order) s)
             (settledSpecs env settings cfg arrival order)) \<and>
      (\<forall>s \<in> set (collectedSpecs env settings cfg arrival).
         Extend s \<in> set (trace (fst (snd (findPluginSpecs env settings cfg arrival order)))) \<and>
         VersionCheck s \<in> set (trace (fst (snd (findPluginSpecs env settings cfg arrival order)))) \<and>
         (Disable s \<in> set (trace (fst (snd (findPluginSpecs env settings cfg arrival order))))
            \<longleftrightarrow> \<not> enabled_spec env (fullyMerged env settings cfg arrival order) s)))"
  proof (cases "checkConflicts env (groupSpecsById env (collectedSpecs env settings cfg arrival))")
    case None
    let ?xs = "settledSpecs env settings cfg arrival order"
    let ?cM = "fullyMerged env settings cfg arrival order"
    let ?A = "map Extend ?xs"
    let ?B = "concat (map (checksOf env ?cM) ?xs)"
    let ?C = "map Disable (filter (\<lambda>s. \<not> enabled_spec env ?cM s) ?xs)"
    let ?w = "fst (snd (findPluginSpecs env settings cfg arrival order))"
    have tr: "trace ?w = ?A @ ?B @ ?C" using None by (rule run_trace)
    have cf: "config ?w = rolledBackConfig env ?cM (filter (\<lambda>s. \<not> enabled_spec env ?cM s) ?xs)"
      using None by (rule run_config)
    have setperm: "set ?xs = set (collectedSpecs env settings cfg arrival)"
      by (rule set_settledSpecs)
    have so: "sorted (map phase (?A @ ?B @ ?C))"
    proof (rule sorted_three_phases)
      show "\<forall>e\<in>set ?A. phase e = 0" by auto
      show "\<forall>e\<in>set ?B. phase e = 1" using phase_checksOf [of _ env ?cM ?xs] by blast
      show "\<forall>e\<in>set ?C. phase e = 2" by auto
    qed
    have noD: "\<And>s. Disable s \<notin> set ?B" "\<And>s. VersionCheck s \<notin> set ?A"
      using phase_checksOf [of _ env ?cM ?xs] by fastforce+
    have mem: "\<forall>s \<in> set (collectedSpecs env settings cfg arrival).
            Extend s \<in> set (?A @ ?B @ ?C) \<and> VersionCheck s \<in> set (?A @ ?B @ ?C) \<and>
            (Disable s \<in> set (?A @ ?B @ ?C) \<longleftrightarrow> \<not> enabled_spec env ?cM s)"
      using setperm noD VersionCheck_in_checks [of _ env ?cM ?xs] by auto
    show ?thesis
      using so mem cf unfolding tr by blast
  next
    case (Some err)
    have c: "checkConflicts env (groupSpecsById env
                (specsOfPacks env (packResultsOf env arrival (resolvedConfig env settings cfg)))) = Some err"
      using Some by (simp add: collectedSpecs_def)
    show ?thesis
      using Some by (simp add: findPluginSpecs_world extendConfig_S_conflict [OF c])
  qed
  let ?env = "withPluginConfig messages env'"
  let ?found = "collectedSpecs ?env settings' cfg' arrival'"
  let ?xs = "settledSpecs ?env settings' cfg' arrival' order'"
  let ?merged = "fullyMerged ?env settings' cfg' arrival' order'"
  let ?left = "config (fst (snd (findPluginSpecs ?env settings' cfg' arrival' order')))"
  have modelled: "contributions ?merged = contributions (resolvedConfig ?env settings' cfg') @ ?xs \<and>
         contributions ?left =
           filter (\<lambda>s. s \<notin> set ?found \<or> enabled_spec ?env ?merged s) (contributions ?merged) \<and>
         (\<forall>s \<in> set ?found. reflects ?merged s \<and> (reflects ?left s \<longleftrightarrow> enabled_spec ?env ?merged s))"
    if ok: "checkConflicts ?env (groupSpecsById ?env ?found) = None"
  proof -
    have sp: "set ?xs = set ?found" by (rule set_settledSpecs)
    have m: "contributions ?merged = contributions (resolvedConfig ?env settings' cfg') @ ?xs"
      by (simp add: fullyMerged_def mergedConfig_contributions)
    have "contributions ?left =
            filter (\<lambda>s. s \<notin> set (filter (\<lambda>s. \<not> enabled_spec ?env ?merged s) ?xs)) (contributions ?merged)"
      by (simp only: run_config [OF ok] rolledBackConfig_contributions)
    also have "\<dots> = filter (\<lambda>s. s \<notin> set ?found \<or> enabled_spec ?env ?merged s) (contributions ?merged)"
      using sp by (intro filter_cong) auto
    finally have l: "contributions ?left =
            filter (\<lambda>s. s \<notin> set ?found \<or> enabled_spec ?env ?merged s) (contributions ?merged)" .
    have r: "\<forall>s \<in> set ?found. reflects ?merged s \<and> (reflects ?left s \<longleftrightarrow> enabled_spec ?env ?merged s)"
      unfolding reflects_def l unfolding m using sp by auto
    from m l r show ?thesis by blast
  qed
  show ?thesis
    using general modelled by (simp only: Let_def) blast
qed

theorem extension_then_classification_then_rollback_witness:
  "checkConflicts sampleEnv (groupSpecsById sampleEnv (collectedSpecs sampleEnv [''b''] (Some sampleConfig0) [2, 0, 3, 2])) = None \<and>
   specOff \<in> set (collectedSpecs sampleEnv [''b''] (Some sampleConfig0) [2, 0, 3, 2]) \<and>
   sorted (map phase (trace (fst (snd (findPluginSpecs sampleEnv [''b''] (Some sampleConfig0) [2, 0, 3, 2] [3, 2]))))) \<and>
   trace (fst (snd (findPluginSpecs sampleEnv [''b''] (Some sampleConfig0) [2, 0, 3, 2] [3, 2]))) =
     [Extend specB, Extend specOff, Extend specA, Extend specOld,
      VersionCheck specB, EnabledCheck specB, VersionCheck specOff, EnabledCheck specOff,
      VersionCheck specA, EnabledCheck specA, VersionCheck specOld,
      Disable specOff, Disable specOld] \<and>
   (Disable specOff \<in> set (trace (fst (snd (findPluginSpecs sampleEnv [''b''] (Some sampleConfig0) [2, 0, 3, 2] [3, 2]))))
      \<longleftrightarrow> \<not> enabled_spec sampleEnv (fullyMerged sampleEnv [''b''] (Some sampleConfig0) [2, 0, 3, 2] [3, 2]) specOff) \<and>
   contributions (fullyMerged sampleEnv [''b''] (Some sampleConfig0) [2, 0, 3, 2] [3, 2]) =
     [specB, specOff, specA, specOld] \<and>
   reflects (fullyMerged sampleEnv [''b''] (Some sampleConfig0) [2, 0, 3, 2] [3, 2]) specOff \<and>
   \<not> reflects (config (fst (snd (findPluginSpecs sampleEnv [''b''] (Some sampleConfig0) [2, 0, 3, 2] [3, 2])))) specOff \<and>
   contributions (config (fst (snd (findPluginSpecs sampleEnv [''b''] (Some sampleConfig0) [2, 0, 3, 2] [3, 2])))) =
     [specB, specA]"
proof -
  let ?found = "collectedSpecs sampleEnv [''b''] (Some sampleConfig0) [2, 0, 3, 2]"
  let ?xs = "settledSpecs sampleEnv [''b''] (Some sampleConfig0) [2, 0, 3, 2] [3, 2]"
  let ?merged = "fullyMerged sampleEnv [''b''] (Some sampleConfig0) [2, 0, 3, 2] [3, 2]"
  let ?run = "findPluginSpecs sampleEnv [''b''] (Some sampleConfig0) [2, 0, 3, 2] [3, 2]"
  have wpc: "withPluginConfig sampleDeprecations sampleEnv = sampleEnv"
    by (simp add: withPluginConfig_def sampleEnv_def)
  have mem: "specOff \<in> set ?found"
    by (simp add: sample_collected)
  have tr: "map Extend ?xs @ concat (map (checksOf sampleEnv ?merged) ?xs) @
      map Disable (filter (\<lambda>s. \<not> enabled_spec sampleEnv ?merged s) ?xs) =
     [Extend specB, Extend specOff, Extend specA, Extend specOld,
      VersionCheck specB, EnabledCheck specB, VersionCheck specOff, EnabledCheck specOff,
      VersionCheck specA, EnabledCheck specA, VersionCheck specOld,
      Disable specOff, Disable specOld]"
    by code_simp
  have off: "\<not> enabled_spec sampleEnv ?merged specOff"
    by code_simp
  have c1: "contributions (resolvedConfig sampleEnv [''b''] (Some sampleConfig0)) @ ?xs =
      [specB, specOff, specA, specOld]"
    by code_simp
  have c2: "filter (\<lambda>s. s \<notin> set ?found \<or> enabled_spec sampleEnv ?merged s)
      [specB, specOff, specA, specOld] = [specB, specA]"
    by code_simp
  note t = extension_then_classification_then_rollback
            [where order = "[3, 2]" and env = sampleEnv and settings = "[''b'']"
               and cfg = "Some sampleConfig0" and arrival = "[2, 0, 3, 2]"
               and env' = sampleEnv and messages = sampleDeprecations and settings' = "[''b'']"
               and cfg' = "Some sampleConfig0" and arrival' = "[2, 0, 3, 2]" and order' = "[3, 2]",
             unfolded wpc Let_def]
  note so = t [THEN conjunct1]
  note gen = t [THEN conjunct2, THEN conjunct1, THEN mp, OF sample_no_conflict]
  note mod = t [THEN conjunct2, THEN conjunct2, THEN mp, OF sample_no_conflict]
  note t1 = gen [THEN conjunct1]
  note t2 = gen [THEN conjunct2, THEN conjunct2, rule_format, OF mem]
  note m = mod [THEN conjunct1]
  note l = mod [THEN conjunct2, THEN conjunct1]
  note r = mod [THEN conjunct2, THEN conjunct2, rule_format, OF mem]
  note d = t2 [THEN conjunct2, THEN conjunct2]
  have rf1: "reflects ?merged specOff"
    using r by (rule conjunct1)
  have rf2: "\<not> reflects (config (fst (snd ?run))) specOff"
    using r [THEN conjunct2] off by simp
  have m': "contributions ?merged = [specB, specOff, specA, specOld]"
    using m c1 by simp
  have l': "contributions (config (fst (snd ?run))) = [specB, specA]"
    using l c2 unfolding m' by simp
  show ?thesis
    using sample_no_conflict mem so t1 [unfolded tr] d rf1 rf2 m' l' by (intro conjI)
qed

text \<open>
  What the barrier does. Two specs are extended, \<open>specB\<close> first; \<open>specB\<close> requires the
  contribution of \<open>specA\<close>. With the barrier, both extensions are there when \<open>specB\<close> is
  classified, and it is enabled. Without it, \<open>specB\<close> is classified as soon as its own
  extension has settled, before \<open>specA\<close> is extended, and it is not enabled.
\<close>

lemma with_the_barrier_sample:
  "trace (snd (map_op (classifyOne sampleEnv)
       (bufferAllResults
          (mergeMap_async (extendOne sampleEnv []) (\<lambda>calls. calls) (fromArray [specB, specA])))
     (\<lambda>x st. (fst st @ [enabledSpecs x], snd st)) ([], world0))) =
     [Extend specB, Extend specA,
      VersionCheck specB, EnabledCheck specB, VersionCheck specA, EnabledCheck specA] \<and>
   fst (map_op (classifyOne sampleEnv)
       (bufferAllResults
          (mergeMap_async (extendOne sampleEnv []) (\<lambda>calls. calls) (fromArray [specB, specA])))
     (\<lambda>x st. (fst st @ [enabledSpecs x], snd st)) ([], world0)) = [[specB], [specA]]"
  by code_simp

lemma without_the_barrier_sample:
  "trace (snd (map_op (classifyOne sampleEnv)
       (mergeMap_async (extendOne sampleEnv []) (\<lambda>calls. calls) (fromArray [specB, specA]))
     (\<lambda>x st. (fst st @ [enabledSpecs x], snd st)) ([], world0))) =
     [Extend specB, VersionCheck specB, EnabledCheck specB,
      Extend specA, VersionCheck specA, EnabledCheck specA] \<and>
   fst (map_op (classifyOne sampleEnv)
       (mergeMap_async (extendOne sampleEnv []) (\<lambda>calls. calls) (fromArray [specB, specA]))
     (\<lambda>x st. (fst st @ [enabledSpecs x], snd st)) ([], world0)) = [[], [specA]]"
  by code_simp

subsection \<open>Enabled and disabled specs\<close>

text \<open>
  C3. The specs emitted on \<open>spec$\<close> and those emitted on \<open>disabledSpec$\<close> are disjoint,
  together they are the specs that survive the conflict check (each emitted once), and
  every spec emitted on \<open>invalidVersionSpec$\<close> is emitted on \<open>disabledSpec$\<close>.
\<close>

theorem enabled_and_disabled_partition_survivors:
  shows "set (fst (spec_S (fst (findPluginSpecs env settings cfg arrival order)))) \<inter>
         set (fst (disabledSpec_S (fst (findPluginSpecs env settings cfg arrival order)))) = {} \<and>
         set (fst (spec_S (fst (findPluginSpecs env settings cfg arrival order)))) \<union>
         set (fst (disabledSpec_S (fst (findPluginSpecs env settings cfg arrival order)))) =
           set (survivingSpecs env (collectedSpecs env settings cfg arrival)) \<and>
         mset (fst (spec_S (fst (findPluginSpecs env settings cfg arrival order)))) +
         mset (fst (disabledSpec_S (fst (findPluginSpecs env settings cfg arrival order)))) =
           mset (survivingSpecs env (collectedSpecs env settings cfg arrival)) \<and>
         set (fst (invalidVersionSpec_S (fst (findPluginSpecs env settings cfg arrival order))))
           \<subseteq> set (fst (disabledSpec_S (fst (findPluginSpecs env settings cfg arrival order))))"
proof (cases "checkConflicts env (groupSpecsById env (collectedSpecs env settings cfg arrival))")
  case None
  let ?xs = "settledSpecs env settings cfg arrival order"
  let ?P = "enabled_spec env (fullyMerged env settings cfg arrival order)"
  have ok: "checkConflicts env (groupSpecsById env
              (specsOfPacks env (packResultsOf env arrival (resolvedConfig env settings cfg)))) = None"
    using None by (simp add: collectedSpecs_def)
  have e: "fst (spec_S (fst (findPluginSpecs env settings cfg arrival order))) = filter ?P ?xs"
    by (simp add: findPluginSpecs_unfold Let_def extendConfig_S_ok_enabled [OF ok]
        fullyMerged_def settledSpecs_def collectedSpecs_def)
  have d: "fst (disabledSpec_S (fst (findPluginSpecs env settings cfg arrival order))) =
             filter (\<lambda>s. \<not> ?P s) ?xs"
    by (simp add: findPluginSpecs_unfold Let_def extendConfig_S_ok_disabled [OF ok]
        fullyMerged_def settledSpecs_def collectedSpecs_def)
  have i: "fst (invalidVersionSpec_S (fst (findPluginSpecs env settings cfg arrival order))) =
             filter (\<lambda>s. \<not> isRightVersion_spec env (fullyMerged env settings cfg arrival order) s) ?xs"
    by (simp add: findPluginSpecs_unfold Let_def extendConfig_S_ok_invalid [OF ok]
        fullyMerged_def settledSpecs_def collectedSpecs_def)
  have s: "survivingSpecs env (collectedSpecs env settings cfg arrival) =
             collectedSpecs env settings cfg arrival"
    using None by (rule survivingSpecs_ok)
  have sub: "set (filter (\<lambda>s. \<not> isRightVersion_spec env (fullyMerged env settings cfg arrival order) s) ?xs)
               \<subseteq> set (filter (\<lambda>s. \<not> ?P s) ?xs)"
    by (auto simp: enabled_spec_def)
  have perm: "mset ?xs = mset (collectedSpecs env settings cfg arrival)"
    by (simp add: settledSpecs_def mset_settleBy)
  have setperm: "set ?xs = set (collectedSpecs env settings cfg arrival)"
    using perm by (rule mset_eq_setD)
  show ?thesis
    unfolding e d i s
    using enabled_filters_partition [of ?P ?xs] sub perm setperm by simp
next
  case (Some err)
  have c: "checkConflicts env (groupSpecsById env
              (specsOfPacks env (packResultsOf env arrival (resolvedConfig env settings cfg)))) = Some err"
    using Some by (simp add: collectedSpecs_def)
  show ?thesis
    by (simp add: findPluginSpecs_unfold Let_def extendConfig_S_conflict [OF c]
        survivingSpecs_conflict [OF Some] mergeMapArray_def)
qed

theorem enabled_and_disabled_partition_survivors_witness:
  "set (fst (spec_S (fst (findPluginSpecs sampleEnv [''b''] (Some sampleConfig0) [2, 0, 3, 2] [3, 2])))) \<inter>
   set (fst (disabledSpec_S (fst (findPluginSpecs sampleEnv [''b''] (Some sampleConfig0) [2, 0, 3, 2] [3, 2])))) = {} \<and>
   set (fst (spec_S (fst (findPluginSpecs sampleEnv [''b''] (Some sampleConfig0) [2, 0, 3, 2] [3, 2])))) \<union>
   set (fst (disabledSpec_S (fst (findPluginSpecs sampleEnv [''b''] (Some sampleConfig0) [2, 0, 3, 2] [3, 2])))) =
     set (survivingSpecs sampleEnv (collectedSpecs sampleEnv [''b''] (Some sampleConfig0) [2, 0, 3, 2])) \<and>
   set (fst (invalidVersionSpec_S (fst (findPluginSpecs sampleEnv [''b''] (Some sampleConfig0) [2, 0, 3, 2] [3, 2]))))
     \<subseteq> set (fst (disabledSpec_S (fst (findPluginSpecs sampleEnv [''b''] (Some sampleConfig0) [2, 0, 3, 2] [3, 2])))) \<and>
   survivingSpecs sampleEnv (collectedSpecs sampleEnv [''b''] (Some sampleConfig0) [2, 0, 3, 2]) = [specA, specOld, specOff, specB]"
proof -
  have surv: "survivingSpecs sampleEnv (collectedSpecs sampleEnv [''b''] (Some sampleConfig0) [2, 0, 3, 2]) = [specA, specOld, specOff, specB]"
    using sample_no_conflict by (simp add: survivingSpecs_def sample_collected)
  show ?thesis
    using enabled_and_disabled_partition_survivors
            [where order = "[3, 2]" and env = sampleEnv and settings = "[''b'']"
               and cfg = "Some sampleConfig0" and arrival = "[2, 0, 3, 2]"]
          surv
    by blast
qed

subsection \<open>How a spec is classified\<close>

text \<open>
  C4. A spec is classified by \<open>isRightVersion = spec.isVersionCompatible(config.get("pkg.version"))\<close>
  and \<open>enabled = isRightVersion && spec.isEnabled(config)\<close>: the record of the \<open>map\<close> stage
  has the spec in \<open>enabledSpecs\<close> when \<open>enabled\<close> holds and in \<open>disabledSpecs\<close> otherwise, and
  in \<open>invalidVersionSpecs\<close> when \<open>isRightVersion\<close> fails. In a run without conflict the
  configuration the stage reads is the fully merged one, so a collected spec is emitted on
  \<open>spec$\<close> iff the conjunction holds against it, and on \<open>invalidVersionSpec$\<close> iff its version
  is not the right one.
\<close>

theorem classification_against_merged_config:
  assumes ok: "checkConflicts env (groupSpecsById env (collectedSpecs env settings cfg arrival)) = None"
  shows "fst (classifyOne env x w) =
     \<lparr>spec = spec x, deprecations = deprecations x,
      enabledSpecs = (if enabled_spec env (config w) (spec x) then [spec x] else []),
      disabledSpecs = (if enabled_spec env (config w) (spec x) then [] else [spec x]),
      invalidVersionSpecs = (if isRightVersion_spec env (config w) (spec x) then [] else [spec x])\<rparr> \<and>
    fst (spec_S (fst (findPluginSpecs env settings cfg arrival order))) =
      filter (enabled_spec env (fullyMerged env settings cfg arrival order))
        (settledSpecs env settings cfg arrival order) \<and>
    fst (disabledSpec_S (fst (findPluginSpecs env settings cfg arrival order))) =
      filter (\<lambda>s. \<not> enabled_spec env (fullyMerged env settings cfg arrival order) s)
        (settledSpecs env settings cfg arrival order) \<and>
    fst (invalidVersionSpec_S (fst (findPluginSpecs env settings cfg arrival order))) =
      filter (\<lambda>s. \<not> isRightVersion_spec env (fullyMerged env settings cfg arrival order) s)
        (settledSpecs env settings cfg arrival order) \<and>
    (\<forall>s \<in> set (collectedSpecs env settings cfg arrival).
       (s \<in> set (fst (spec_S (fst (findPluginSpecs env settings cfg arrival order))))
          \<longleftrightarrow> enabled_spec env (fullyMerged env settings cfg arrival order) s) \<and>
       (s \<in> set (fst (invalidVersionSpec_S (fst (findPluginSpecs env settings cfg arrival order))))
          \<longleftrightarrow> \<not> isRightVersion_spec env (fullyMerged env settings cfg arrival order) s))"
proof -
  let ?xs = "settledSpecs env settings cfg arrival order"
  let ?cM = "fullyMerged env settings cfg arrival order"
  have ok': "checkConflicts env (groupSpecsById env
              (specsOfPacks env (packResultsOf env arrival (resolvedConfig env settings cfg)))) = None"
    using ok by (simp add: collectedSpecs_def)
  have e: "fst (spec_S (fst (findPluginSpecs env settings cfg arrival order))) =
             filter (enabled_spec env ?cM) ?xs"
    by (simp add: findPluginSpecs_unfold Let_def extendConfig_S_ok_enabled [OF ok']
        fullyMerged_def settledSpecs_def collectedSpecs_def)
  have d: "fst (disabledSpec_S (fst (findPluginSpecs env settings cfg arrival order))) =
             filter (\<lambda>s. \<not> enabled_spec env ?cM s) ?xs"
    by (simp add: findPluginSpecs_unfold Let_def extendConfig_S_ok_disabled [OF ok']
        fullyMerged_def settledSpecs_def collectedSpecs_def)
  have i: "fst (invalidVersionSpec_S (fst (findPluginSpecs env settings cfg arrival order))) =
             filter (\<lambda>s. \<not> isRightVersion_spec env ?cM s) ?xs"
    by (simp add: findPluginSpecs_unfold Let_def extendConfig_S_ok_invalid [OF ok']
        fullyMerged_def settledSpecs_def collectedSpecs_def)
  have perm: "mset ?xs = mset (collectedSpecs env settings cfg arrival)"
    by (simp add: settledSpecs_def mset_settleBy)
  have setperm: "set ?xs = set (collectedSpecs env settings cfg arrival)"
    using perm by (rule mset_eq_setD)
  show ?thesis
    unfolding e d i using setperm classifyOne_record [of env x w] by simp
qed

theorem classification_against_merged_config_witness:
  "checkConflicts sampleEnv (groupSpecsById sampleEnv (collectedSpecs sampleEnv [''b''] (Some sampleConfig0) [2, 0, 3, 2])) = None \<and>
   specB \<in> set (collectedSpecs sampleEnv [''b''] (Some sampleConfig0) [2, 0, 3, 2]) \<and>
   fst (spec_S (fst (findPluginSpecs sampleEnv [''b''] (Some sampleConfig0) [2, 0, 3, 2] [3, 2]))) =
     filter (enabled_spec sampleEnv (fullyMerged sampleEnv [''b''] (Some sampleConfig0) [2, 0, 3, 2] [3, 2]))
       (settledSpecs sampleEnv [''b''] (Some sampleConfig0) [2, 0, 3, 2] [3, 2]) \<and>
   (specB \<in> set (fst (spec_S (fst (findPluginSpecs sampleEnv [''b''] (Some sampleConfig0) [2, 0, 3, 2] [3, 2]))))
      \<longleftrightarrow> enabled_spec sampleEnv (fullyMerged sampleEnv [''b''] (Some sampleConfig0) [2, 0, 3, 2] [3, 2]) specB)"
proof -
  have mem: "specB \<in> set (collectedSpecs sampleEnv [''b''] (Some sampleConfig0) [2, 0, 3, 2])"
    by (simp add: sample_collected)
  show ?thesis
    using classification_against_merged_config
            [where order = "[3, 2]" and env = sampleEnv and settings = "[''b'']"
               and cfg = "Some sampleConfig0" and arrival = "[2, 0, 3, 2]"]
          sample_no_conflict mem
    by blast
qed

subsection \<open>Conflicting identifiers\<close>

text \<open>
  C1, as amended. If two or more of the collected specs have the same identifier, then
  \<open>extendConfig$\<close> fails, and with it the five channels projected from it end with that
  error without having emitted anything: no routine of a spec has been called and the
  configuration is the one \<open>config$\<close> gave. The message of the error is built from one
  identifier, that of the first collected spec whose identifier is shared, and names this
  identifier and the path of every spec that has it.
\<close>

theorem duplicate_identifier_fails_before_extension:
  assumes dup: "\<not> distinct (map (getId env) (collectedSpecs env settings cfg arrival))"
  shows "\<exists>s0. firstDuplicated env (collectedSpecs env settings cfg arrival) = Some s0 \<and>
    (let grp = filter (\<lambda>t. getId env t = getId env s0) (collectedSpecs env settings cfg arrival);
         msg = conflictMessage env (getId env s0) grp;
         run = findPluginSpecs env settings cfg arrival order
     in 1 < length grp \<and>
        deprecation_S (fst run) = ([], Some (Error msg)) \<and>
        extendedConfig_S (fst run) = ([], Some (Error msg)) \<and>
        spec_S (fst run) = ([], Some (Error msg)) \<and>
        disabledSpec_S (fst run) = ([], Some (Error msg)) \<and>
        invalidVersionSpec_S (fst run) = ([], Some (Error msg)) \<and>
        fst (snd run) = \<lparr>config = resolvedConfig env settings cfg, trace = []\<rparr> \<and>
        (\<forall>s \<in> set grp. sublist (getId env s) msg \<and> sublist (getPath env s) msg))"
proof -
  let ?all = "collectedSpecs env settings cfg arrival"
  from dup obtain s0 where s0: "firstDuplicated env ?all = Some s0" "s0 \<in> set ?all"
    "1 < length (filter (\<lambda>t. getId env t = getId env s0) ?all)"
    by (rule firstDuplicated_Some)
  let ?grp = "filter (\<lambda>t. getId env t = getId env s0) ?all"
  let ?msg = "conflictMessage env (getId env s0) ?grp"
  have c: "checkConflicts env (groupSpecsById env
              (specsOfPacks env (packResultsOf env arrival (resolvedConfig env settings cfg)))) =
           Some (Error ?msg)"
    using s0(1) by (simp add: checkConflicts_groupSpecsById firstDuplicated_def collectedSpecs_def)
  have names: "\<forall>s \<in> set ?grp. sublist (getId env s) ?msg \<and> sublist (getPath env s) ?msg"
    using conflictMessage_names [of _ ?grp "getId env s0" env] by auto
  have chans: "deprecation_S (fst (findPluginSpecs env settings cfg arrival order)) = ([], Some (Error ?msg))"
     "extendedConfig_S (fst (findPluginSpecs env settings cfg arrival order)) = ([], Some (Error ?msg))"
     "spec_S (fst (findPluginSpecs env settings cfg arrival order)) = ([], Some (Error ?msg))"
     "disabledSpec_S (fst (findPluginSpecs env settings cfg arrival order)) = ([], Some (Error ?msg))"
     "invalidVersionSpec_S (fst (findPluginSpecs env settings cfg arrival order)) = ([], Some (Error ?msg))"
    by (simp_all add: findPluginSpecs_unfold Let_def extendConfig_S_conflict [OF c]
        mergeMapArray_def extendedConfigOf_def last_op_def filter_op_def)
  have w: "fst (snd (findPluginSpecs env settings cfg arrival order)) =
             \<lparr>config = resolvedConfig env settings cfg, trace = []\<rparr>"
    by (simp add: findPluginSpecs_world extendConfig_S_conflict [OF c])
  show ?thesis
    using s0(1,3) chans w names by (simp add: Let_def)
qed

theorem duplicate_identifier_fails_before_extension_witness:
  "\<not> distinct (map (getId sampleEnv) (collectedSpecs sampleEnv [] (Some conflictConfig) [])) \<and>
   firstDuplicated sampleEnv (collectedSpecs sampleEnv [] (Some conflictConfig) []) = Some specA \<and>
   spec_S (fst (findPluginSpecs sampleEnv [] (Some conflictConfig) [] [])) =
     ([], Some (Error (conflictMessage sampleEnv (getId sampleEnv specA)
        (filter (\<lambda>t. getId sampleEnv t = getId sampleEnv specA)
           (collectedSpecs sampleEnv [] (Some conflictConfig) []))))) \<and>
   fst (snd (findPluginSpecs sampleEnv [] (Some conflictConfig) [] [])) =
     \<lparr>config = resolvedConfig sampleEnv [] (Some conflictConfig), trace = []\<rparr>"
proof -
  have d: "\<not> distinct (map (getId sampleEnv)
             (collectedSpecs sampleEnv [] (Some conflictConfig) []))"
    by code_simp
  have f: "firstDuplicated sampleEnv (collectedSpecs sampleEnv [] (Some conflictConfig) []) =
             Some specA"
    by code_simp
  show ?thesis
    using duplicate_identifier_fails_before_extension
            [where env = sampleEnv and settings = "[]" and cfg = "Some conflictConfig"
               and arrival = "[]" and order = "[]", OF d]
          d f
    by (auto simp: Let_def)
qed

text \<open>
  C1, as stated, fails. With the specs \<open>a\<close>, \<open>a\<close>, \<open>b\<close>, \<open>b\<close> collected, \<open>specB\<close> and
  \<open>specB2\<close> conflict, but the message of the error names neither of their paths: the
  loop throws at the first group. And \<open>pack$\<close> has emitted and completed: what fails is
  \<open>extendConfig$\<close>, not every channel.
\<close>

theorem message_omits_second_conflict_counterexample:
  \<open>collectedSpecs sampleEnv [] (Some conflictConfig) [] = [specA, specA2, specB, specB2] \<and>
   getId sampleEnv specB = getId sampleEnv specB2 \<and> specB \<noteq> specB2 \<and>
   spec_S (fst (findPluginSpecs sampleEnv [] (Some conflictConfig) [] [])) =
     ([], Some (Error ''Multple plugins found with the id "a":\<newline>  - a at /plugins/a\<newline>  - a at /other/a'')) \<and>
   \<not> sublist (getPath sampleEnv specB)
       ''Multple plugins found with the id "a":\<newline>  - a at /plugins/a\<newline>  - a at /other/a'' \<and>
   \<not> sublist (getPath sampleEnv specB2)
       ''Multple plugins found with the id "a":\<newline>  - a at /plugins/a\<newline>  - a at /other/a'' \<and>
   pack_S (fst (findPluginSpecs sampleEnv [] (Some conflictConfig) [] [])) =
     ([[specA], [specA2], [specB], [specB2]], None)\<close>
  by code_simp

subsection \<open>Deduplication of the results of the locators\<close>

text \<open>
  C6, as amended. The key of a result is the message of its error when it has one, the
  canonical path of its directory when it has a package manifest and no error, and
  otherwise the result object itself, compared by reference: an object that is delivered
  twice passes once. A result passes \<open>distinct\<close>
  iff no result that arrived before it has its key; so the results that pass are in the
  order of arrival, no two of them have the same key, and every key of a result that
  arrived is the key of exactly one result that passes. Nothing is made of a result that
  does not pass: \<open>packageJson$\<close> emits the manifests of the results that pass, and the pack
  results, from which the error channels are projected, are made from the results that
  pass, one for one. The located errors that pass have pairwise distinct messages; and
  when no result carries both an error and a manifest, the manifests on \<open>packageJson$\<close>
  have pairwise distinct canonical paths.
\<close>

theorem first_occurrence_of_each_key_passes:
  "getDistinctKeyForFindResult env \<lparr>error = Some e, packageJson = pjo, identity = n\<rparr> =
     KString (errorMessage env e) \<and>
   getDistinctKeyForFindResult env \<lparr>error = None, packageJson = Some pj, identity = n\<rparr> =
     KString (realpathSync env (directoryPath pj)) \<and>
   getDistinctKeyForFindResult env \<lparr>error = None, packageJson = None, identity = n\<rparr> = KResult n \<and>
   dedupe env [r, r] = [r] \<and>
   dedupe env found =
     map (\<lambda>i. found ! i)
       (filter (\<lambda>i. getDistinctKeyForFindResult env (found ! i) \<notin>
                     getDistinctKeyForFindResult env ` set (take i found))
          [0..<length found]) \<and>
   distinct (map (getDistinctKeyForFindResult env) (dedupe env found)) \<and>
   set (map (getDistinctKeyForFindResult env) (dedupe env found)) =
     getDistinctKeyForFindResult env ` set found \<and>
   (\<forall>k \<in> getDistinctKeyForFindResult env ` set found.
      length (filter (\<lambda>r. getDistinctKeyForFindResult env r = k) (dedupe env found)) = 1) \<and>
   length (dedupe env found) = card (getDistinctKeyForFindResult env ` set found) \<and>
   distinct (map (errorMessage env)
      (concat (map (\<lambda>r. case error r of Some e \<Rightarrow> [e] | None \<Rightarrow> []) (dedupe env found)))) \<and>
   packageJson_S (fst (findPluginSpecs env settings cfg arrival order)) =
     (concat (map (\<lambda>r. case packageJson r of Some pj \<Rightarrow> [pj] | None \<Rightarrow> [])
        (dedupe env (locate env arrival (resolvedConfig env settings cfg)))), None) \<and>
   packResultsOf env arrival (resolvedConfig env settings cfg) =
     map (createPack env) (dedupe env (locate env arrival (resolvedConfig env settings cfg))) \<and>
   ((\<forall>r \<in> set (locate env arrival (resolvedConfig env settings cfg)). wellShaped r) \<longrightarrow>
      distinct (map (\<lambda>pj. realpathSync env (directoryPath pj))
        (fst (packageJson_S (fst (findPluginSpecs env settings cfg arrival order))))))"
proof -
  let ?key = "getDistinctKeyForFindResult env"
  have k: "?key \<lparr>error = Some e, packageJson = pjo, identity = n\<rparr> = KString (errorMessage env e)"
     "?key \<lparr>error = None, packageJson = Some pj, identity = n\<rparr> = KString (realpathSync env (directoryPath pj))"
     "?key \<lparr>error = None, packageJson = None, identity = n\<rparr> = KResult n"
    by (simp_all add: getDistinctKeyForFindResult_def)
  have tw: "dedupe env [r, r] = [r]"
    by (simp add: dedupe_def distinctBy_def)
  have f: "dedupe env found =
     map (\<lambda>i. found ! i) (filter (\<lambda>i. ?key (found ! i) \<notin> ?key ` set (take i found)) [0..<length found])"
    unfolding dedupe_def by (rule distinctBy_first)
  have d: "distinct (map ?key (dedupe env found))"
    unfolding dedupe_def by (rule distinctBy_keys_distinct)
  have c: "set (map ?key (dedupe env found)) = ?key ` set found"
    unfolding dedupe_def by (rule distinctBy_keys)
  have o: "\<forall>k \<in> ?key ` set found. length (filter (\<lambda>r. ?key r = k) (dedupe env found)) = 1"
  proof
    fix k assume "k \<in> ?key ` set found"
    then have "k \<in> ?key ` set (dedupe env found)" using c by simp
    with d show "length (filter (\<lambda>r. ?key r = k) (dedupe env found)) = 1"
      by (rule one_for_each_key)
  qed
  have l: "length (dedupe env found) = card (?key ` set found)"
    using distinct_card_length [OF d] c by simp
  have p: "packageJson_S (fst (findPluginSpecs env settings cfg arrival order)) =
     (concat (map (\<lambda>r. case packageJson r of Some pj \<Rightarrow> [pj] | None \<Rightarrow> [])
        (dedupe env (locate env arrival (resolvedConfig env settings cfg)))), None)"
    by (simp add: findPluginSpecs_unfold Let_def)
  have w: "(\<forall>r \<in> set (locate env arrival (resolvedConfig env settings cfg)). wellShaped r) \<longrightarrow>
      distinct (map (\<lambda>pj. realpathSync env (directoryPath pj))
        (fst (packageJson_S (fst (findPluginSpecs env settings cfg arrival order)))))"
  proof
    let ?found = "locate env arrival (resolvedConfig env settings cfg)"
    assume ws: "\<forall>r \<in> set ?found. wellShaped r"
    have "set (dedupe env ?found) \<subseteq> set ?found"
      unfolding dedupe_def by (rule distinctBy_subset)
    then have "\<forall>p\<in>set (dedupe env ?found). wellShaped p"
      using ws by auto
    from descriptors_distinct [OF _ this, of env] distinctBy_keys_distinct [of ?key ?found]
    show "distinct (map (\<lambda>pj. realpathSync env (directoryPath pj))
        (fst (packageJson_S (fst (findPluginSpecs env settings cfg arrival order)))))"
      unfolding p by (simp add: dedupe_def)
  qed
  have m: "distinct (map (errorMessage env)
      (concat (map (\<lambda>r. case error r of Some e \<Rightarrow> [e] | None \<Rightarrow> []) (dedupe env found))))"
    using d by (rule error_messages_distinct)
  have pr: "packResultsOf env arrival (resolvedConfig env settings cfg) =
     map (createPack env) (dedupe env (locate env arrival (resolvedConfig env settings cfg)))"
    by (simp add: packResultsOf_def createPack_S_def)
  show ?thesis
    using k tw f d c o l m p pr w by (intro conjI)
qed

theorem first_occurrence_of_each_key_passes_witness:
  "list_all wellShaped (locate sampleEnv [2, 0, 3, 2] (resolvedConfig sampleEnv [] (Some sampleConfig0))) \<and>
   map (getDistinctKeyForFindResult sampleEnv)
     (locate sampleEnv [2, 0, 3, 2] (resolvedConfig sampleEnv [] (Some sampleConfig0))) =
     [KString ''/plugins/a'', KString ''/plugins/mixed'', KString ''no such directory'',
      KString ''/plugins/b'', KString ''/plugins/a''] \<and>
   length (filter (\<lambda>r. getDistinctKeyForFindResult sampleEnv r = KString ''/plugins/a'')
     (dedupe sampleEnv
        (locate sampleEnv [2, 0, 3, 2] (resolvedConfig sampleEnv [] (Some sampleConfig0))))) = 1 \<and>
   distinct (map (\<lambda>pj. realpathSync sampleEnv (directoryPath pj))
     (fst (packageJson_S (fst (findPluginSpecs sampleEnv [] (Some sampleConfig0) [2, 0, 3, 2] []))))) \<and>
   length (dedupe sampleEnv
     (locate sampleEnv [2, 0, 3, 2] (resolvedConfig sampleEnv [] (Some sampleConfig0)))) = 4"
proof -
  let ?found = "locate sampleEnv [2, 0, 3, 2] (resolvedConfig sampleEnv [] (Some sampleConfig0))"
  have ws: "list_all wellShaped ?found"
    by code_simp
  have ks: "map (getDistinctKeyForFindResult sampleEnv) ?found =
     [KString ''/plugins/a'', KString ''/plugins/mixed'', KString ''no such directory'',
      KString ''/plugins/b'', KString ''/plugins/a'']"
    by code_simp
  have m: "length (dedupe sampleEnv ?found) = 4"
    by code_simp
  have w: "\<forall>r \<in> set ?found. wellShaped r"
    using ws by (simp add: list_all_iff)
  have kin: "KString ''/plugins/a'' \<in> getDistinctKeyForFindResult sampleEnv ` set ?found"
  proof -
    have "KString ''/plugins/a'' \<in> set (map (getDistinctKeyForFindResult sampleEnv) ?found)"
      unfolding ks by simp
    then show ?thesis by simp
  qed
  note t = first_occurrence_of_each_key_passes
            [where env = sampleEnv and settings = "[]" and cfg = "Some sampleConfig0"
               and arrival = "[2, 0, 3, 2]" and order = "[]" and found = ?found and n = 0
               and e = "Unexpected []" and pjo = None and pj = "\<lparr>directoryPath = []\<rparr>"]
  note one = t [THEN conjunct2, THEN conjunct2, THEN conjunct2, THEN conjunct2, THEN conjunct2,
      THEN conjunct2, THEN conjunct2, THEN conjunct1, rule_format, OF kin]
  note di = t [THEN conjunct2, THEN conjunct2, THEN conjunct2, THEN conjunct2, THEN conjunct2,
      THEN conjunct2, THEN conjunct2, THEN conjunct2, THEN conjunct2, THEN conjunct2,
      THEN conjunct2, THEN conjunct2, THEN mp, OF w]
  from ws ks one di m show ?thesis by (intro conjI)
qed

text \<open>
  C6, as stated, fails: \<open>packageJson$\<close> and the error channels do not emit each distinct
  key once. The keys of errors and of manifests are compared with each other: the
  manifest of \<open>/plugins/a\<close> arrives after an error whose message is that string, and
  \<open>packageJson$\<close> does not emit it, although no manifest with its canonical path came
  before. And the errors that the synthesizer makes are not deduplicated: for the two
  packages that are no plugins, \<open>invalidPackError$\<close> emits the same message twice.
\<close>

theorem shadowed_descriptor_and_repeated_message_counterexample:
  "map (getDistinctKeyForFindResult shadowEnv) (locate shadowEnv [3] shadowConfig) =
     [KString ''/plugins/a'', KString ''/x1'', KString ''/x2'', KString ''/plugins/a''] \<and>
   map packageJson (locate shadowEnv [3] shadowConfig) =
     [None, Some \<lparr>directoryPath = ''/x1''\<rparr>, Some \<lparr>directoryPath = ''/x2''\<rparr>,
      Some \<lparr>directoryPath = ''/plugins/a''\<rparr>] \<and>
   packageJson_S (fst (findPluginSpecs shadowEnv [] (Some shadowConfig) [3] [])) =
     ([\<lparr>directoryPath = ''/x1''\<rparr>, \<lparr>directoryPath = ''/x2''\<rparr>], None) \<and>
   invalidDirectoryError_S (fst (findPluginSpecs shadowEnv [] (Some shadowConfig) [3] [])) =
     ([Some (InvalidDirectory ''/plugins/a'')], None) \<and>
   invalidPackError_S (fst (findPluginSpecs shadowEnv [] (Some shadowConfig) [3] [])) =
     ([Some (InvalidPack ''not a plugin''), Some (InvalidPack ''not a plugin'')], None) \<and>
   otherError_S (fst (findPluginSpecs shadowEnv [] (Some shadowConfig) [3] [])) = ([], None)"
  by code_simp

subsection \<open>What \<open>config$\<close> gives, and how often\<close>

text \<open>
  C7. \<open>config$\<close> gives the configuration the caller supplied, as it is and without building
  another one, when there is one; otherwise the configuration that
  \<open>Config.withDefaultSchema\<close> builds from the settings after \<open>transformDeprecations\<close>.
  However many subscribers there are, they all get this value, and the deferred function
  (and with it \<open>defaultConfig\<close>) runs at most once; in a run of \<open>findPluginSpecs\<close> it runs
  once.
\<close>

theorem config_source_evaluated_once:
  "fst (config_S env settings (Some c) newSource) = c \<and>
   defaultConfigCalls (snd (config_S env settings (Some c) newSource)) = 0 \<and>
   fst (config_S env settings None newSource) =
     withDefaultSchema env (transformDeprecations env settings) \<and>
   fst (subscribeAll env settings cfg n newSource) = replicate n (resolvedConfig env settings cfg) \<and>
   deferRuns (snd (subscribeAll env settings cfg n newSource)) \<le> 1 \<and>
   defaultConfigCalls (snd (subscribeAll env settings cfg n newSource)) \<le> 1 \<and>
   deferRuns (snd (snd (findPluginSpecs env settings cfg arrival order))) = 1 \<and>
   cached (snd (snd (findPluginSpecs env settings cfg arrival order))) =
     Some (resolvedConfig env settings cfg)"
  using subscribeAll_new [of env settings cfg n]
  by (simp add: config_S_first resolvedConfig_def defaultConfig_def findPluginSpecs_unfold Let_def)

theorem config_source_evaluated_once_witness:
  "fst (subscribeAll sampleEnv [] (Some sampleConfig0) 3 newSource) =
     replicate 3 (resolvedConfig sampleEnv [] (Some sampleConfig0)) \<and>
   deferRuns (snd (subscribeAll sampleEnv [] (Some sampleConfig0) 3 newSource)) \<le> 1 \<and>
   fst (config_S sampleEnv [] (Some sampleConfig0) newSource) = sampleConfig0"
  using config_source_evaluated_once
          [where env = sampleEnv and settings = "[]" and cfg = "Some sampleConfig0"
             and c = sampleConfig0 and n = 3]
  by blast

subsection \<open>What the error channels emit\<close>

text \<open>
  C8, as amended. The pack results are made from the located results that pass
  deduplication. Each of the three error channels emits the \<open>error\<close> fields of the pack
  results that its predicate accepts, in the order of the results:
  \<open>isInvalidDirectoryError\<close>, \<open>isInvalidPackError\<close>, and for \<open>otherError$\<close> that the error is
  not \<open>null\<close> and neither predicate accepts it. So every occurrence among the pack results
  of an error that the two predicates do not both accept is emitted once, on one
  channel; and an error that both accept is emitted on two.
\<close>

theorem errors_of_pack_results_routed_by_the_predicates:
  "packResultsOf env arrival (resolvedConfig env settings cfg) =
      map (createPack env) (dedupe env (locate env arrival (resolvedConfig env settings cfg))) \<and>
    invalidDirectoryError_S (fst (findPluginSpecs env settings cfg arrival order)) =
      (filter (isInvalidDirectoryError env)
         (map error (packResultsOf env arrival (resolvedConfig env settings cfg))), None) \<and>
    invalidPackError_S (fst (findPluginSpecs env settings cfg arrival order)) =
      (filter (isInvalidPackError env)
         (map error (packResultsOf env arrival (resolvedConfig env settings cfg))), None) \<and>
    otherError_S (fst (findPluginSpecs env settings cfg arrival order)) =
      (filter (isUnhandledError env)
         (map error (packResultsOf env arrival (resolvedConfig env settings cfg))), None) \<and>
    (isUnhandledError env (Some e) \<longleftrightarrow>
       \<not> isInvalidDirectoryError env (Some e) \<and> \<not> isInvalidPackError env (Some e)) \<and>
    (\<not> (isInvalidDirectoryError env (Some e) \<and> isInvalidPackError env (Some e)) \<longrightarrow>
       count_list (fst (invalidDirectoryError_S (fst (findPluginSpecs env settings cfg arrival order)))) (Some e) +
       count_list (fst (invalidPackError_S (fst (findPluginSpecs env settings cfg arrival order)))) (Some e) +
       count_list (fst (otherError_S (fst (findPluginSpecs env settings cfg arrival order)))) (Some e) =
         count_list (map error (packResultsOf env arrival (resolvedConfig env settings cfg))) (Some e)) \<and>
    (isInvalidDirectoryError env (Some e) \<and> isInvalidPackError env (Some e) \<longrightarrow>
       count_list (fst (invalidDirectoryError_S (fst (findPluginSpecs env settings cfg arrival order)))) (Some e) +
       count_list (fst (invalidPackError_S (fst (findPluginSpecs env settings cfg arrival order)))) (Some e) +
       count_list (fst (otherError_S (fst (findPluginSpecs env settings cfg arrival order)))) (Some e) =
         2 * count_list (map error (packResultsOf env arrival (resolvedConfig env settings cfg))) (Some e))"
proof -
  let ?es = "map error (packResultsOf env arrival (resolvedConfig env settings cfg))"
  have ch: "fst (invalidDirectoryError_S (fst (findPluginSpecs env settings cfg arrival order))) =
              filter (isInvalidDirectoryError env) ?es"
     "fst (invalidPackError_S (fst (findPluginSpecs env settings cfg arrival order))) =
              filter (isInvalidPackError env) ?es"
     "fst (otherError_S (fst (findPluginSpecs env settings cfg arrival order))) =
              filter (isUnhandledError env) ?es"
     "snd (invalidDirectoryError_S (fst (findPluginSpecs env settings cfg arrival order))) = None"
     "snd (invalidPackError_S (fst (findPluginSpecs env settings cfg arrival order))) = None"
     "snd (otherError_S (fst (findPluginSpecs env settings cfg arrival order))) = None"
    by (simp_all add: findPluginSpecs_unfold Let_def errorsWhere_filter)
  have u: "isUnhandledError env (Some e) \<longleftrightarrow>
       \<not> isInvalidDirectoryError env (Some e) \<and> \<not> isInvalidPackError env (Some e)"
    by (simp add: isUnhandledError_def)
  have pr: "packResultsOf env arrival (resolvedConfig env settings cfg) =
     map (createPack env) (dedupe env (locate env arrival (resolvedConfig env settings cfg)))"
    by (simp add: packResultsOf_def createPack_S_def)
  have rest: "invalidDirectoryError_S (fst (findPluginSpecs env settings cfg arrival order)) =
      (filter (isInvalidDirectoryError env) ?es, None) \<and>
    invalidPackError_S (fst (findPluginSpecs env settings cfg arrival order)) =
      (filter (isInvalidPackError env) ?es, None) \<and>
    otherError_S (fst (findPluginSpecs env settings cfg arrival order)) =
      (filter (isUnhandledError env) ?es, None) \<and>
    (isUnhandledError env (Some e) \<longleftrightarrow>
       \<not> isInvalidDirectoryError env (Some e) \<and> \<not> isInvalidPackError env (Some e)) \<and>
    (\<not> (isInvalidDirectoryError env (Some e) \<and> isInvalidPackError env (Some e)) \<longrightarrow>
       count_list (fst (invalidDirectoryError_S (fst (findPluginSpecs env settings cfg arrival order)))) (Some e) +
       count_list (fst (invalidPackError_S (fst (findPluginSpecs env settings cfg arrival order)))) (Some e) +
       count_list (fst (otherError_S (fst (findPluginSpecs env settings cfg arrival order)))) (Some e) =
         count_list ?es (Some e)) \<and>
    (isInvalidDirectoryError env (Some e) \<and> isInvalidPackError env (Some e) \<longrightarrow>
       count_list (fst (invalidDirectoryError_S (fst (findPluginSpecs env settings cfg arrival order)))) (Some e) +
       count_list (fst (invalidPackError_S (fst (findPluginSpecs env settings cfg arrival order)))) (Some e) +
       count_list (fst (otherError_S (fst (findPluginSpecs env settings cfg arrival order)))) (Some e) =
         2 * count_list ?es (Some e))"
    using u count_routed [where env = env and e = e and es = ?es]
      count_routed_twice [where env = env and e = e and es = ?es]
    unfolding ch(1-3) [symmetric]
    by (metis ch(4-6) prod.collapse)
  from pr rest show ?thesis by (rule conjI)
qed

theorem errors_of_pack_results_routed_by_the_predicates_witness:
  "\<not> (isInvalidDirectoryError sampleEnv (Some (InvalidDirectory ''no such directory'')) \<and>
      isInvalidPackError sampleEnv (Some (InvalidDirectory ''no such directory''))) \<and>
   count_list (fst (invalidDirectoryError_S
       (fst (findPluginSpecs sampleEnv [] (Some sampleConfig0) [2, 0, 3, 2] []))))
     (Some (InvalidDirectory ''no such directory'')) +
   count_list (fst (invalidPackError_S
       (fst (findPluginSpecs sampleEnv [] (Some sampleConfig0) [2, 0, 3, 2] []))))
     (Some (InvalidDirectory ''no such directory'')) +
   count_list (fst (otherError_S
       (fst (findPluginSpecs sampleEnv [] (Some sampleConfig0) [2, 0, 3, 2] []))))
     (Some (InvalidDirectory ''no such directory'')) =
   count_list (map error (packResultsOf sampleEnv [2, 0, 3, 2]
       (resolvedConfig sampleEnv [] (Some sampleConfig0))))
     (Some (InvalidDirectory ''no such directory'')) \<and>
   fst (invalidDirectoryError_S
       (fst (findPluginSpecs sampleEnv [] (Some sampleConfig0) [2, 0, 3, 2] []))) =
     [Some (InvalidDirectory ''no such directory'')]"
proof -
  have excl: "\<not> (isInvalidDirectoryError sampleEnv (Some (InvalidDirectory ''no such directory'')) \<and>
      isInvalidPackError sampleEnv (Some (InvalidDirectory ''no such directory'')))"
    by (simp add: sampleEnv_def)
  have ev: "fst (invalidDirectoryError_S
       (fst (findPluginSpecs sampleEnv [] (Some sampleConfig0) [2, 0, 3, 2] []))) =
     [Some (InvalidDirectory ''no such directory'')]"
    by code_simp
  show ?thesis
    using errors_of_pack_results_routed_by_the_predicates
            [where env = sampleEnv and settings = "[]" and cfg = "Some sampleConfig0"
               and arrival = "[2, 0, 3, 2]" and order = "[]"
               and e = "InvalidDirectory ''no such directory''"]
          excl ev
    by blast
qed

text \<open>
  C8, as stated, fails. Three directories cannot be scanned, and three errors are located,
  all with the same message: deduplication lets the first one pass, and the other two
  reach no channel. The one that passes is accepted by both predicates and is emitted on
  two channels, \<open>invalidDirectoryError$\<close> and \<open>invalidPackError$\<close>.
\<close>

theorem dropped_error_reaches_no_channel_counterexample:
  "map error (locate overlapEnv [] overlapConfig) =
     [Some (InvalidDirectory ''no such directory''), Some (InvalidDirectory ''no such directory''),
      Some (InvalidDirectory ''no such directory'')] \<and>
   isInvalidDirectoryError overlapEnv (Some (InvalidDirectory ''no such directory'')) \<and>
   isInvalidPackError overlapEnv (Some (InvalidDirectory ''no such directory'')) \<and>
   invalidDirectoryError_S (fst (findPluginSpecs overlapEnv [] (Some overlapConfig) [] [])) =
     ([Some (InvalidDirectory ''no such directory'')], None) \<and>
   invalidPackError_S (fst (findPluginSpecs overlapEnv [] (Some overlapConfig) [] [])) =
     ([Some (InvalidDirectory ''no such directory'')], None) \<and>
   otherError_S (fst (findPluginSpecs overlapEnv [] (Some overlapConfig) [] [])) = ([], None)"
  by code_simp

text \<open>
  C10, as amended. A pack result whose \<open>error\<close> is \<open>null\<close> or absent is not emitted on
  \<open>otherError$\<close>, which asks for \<open>error != null\<close>: the channel never emits \<open>null\<close>, and it
  emits the same with such a result among the pack results or without it.
  \<open>invalidDirectoryError$\<close> and \<open>invalidPackError$\<close> have no such test: each of them emits
  the results without an error when the predicate of the channel accepts \<open>null\<close>, all of
  them, and none when it rejects \<open>null\<close>.
\<close>

theorem null_error_never_on_otherError:
  "None \<notin> set (fst (otherError_S (fst (findPluginSpecs env settings cfg arrival order)))) \<and>
   count_list (fst (invalidDirectoryError_S (fst (findPluginSpecs env settings cfg arrival order)))) None =
     (if isInvalidDirectoryError env None
      then count_list (map error (packResultsOf env arrival (resolvedConfig env settings cfg))) None
      else 0) \<and>
   count_list (fst (invalidPackError_S (fst (findPluginSpecs env settings cfg arrival order)))) None =
     (if isInvalidPackError env None
      then count_list (map error (packResultsOf env arrival (resolvedConfig env settings cfg))) None
      else 0) \<and>
   errorsWhere (isUnhandledError env) (before @ \<lparr>error = None, pack = po\<rparr> # after) =
     errorsWhere (isUnhandledError env) (before @ after) \<and>
   errorsWhere (isInvalidDirectoryError env) [\<lparr>error = None, pack = po\<rparr>] =
     (if isInvalidDirectoryError env None then [None] else []) \<and>
   errorsWhere (isInvalidPackError env) [\<lparr>error = None, pack = po\<rparr>] =
     (if isInvalidPackError env None then [None] else [])"
  by (simp add: findPluginSpecs_unfold Let_def errorsWhere_filter isUnhandledError_def
      count_list_filter)

theorem null_error_never_on_otherError_witness:
  "None \<notin> set (fst (otherError_S
     (fst (findPluginSpecs sampleEnv [] (Some sampleConfig0) [2, 0, 3, 2] [])))) \<and>
   count_list (fst (invalidDirectoryError_S
     (fst (findPluginSpecs sampleEnv [] (Some sampleConfig0) [2, 0, 3, 2] [])))) None = 0 \<and>
   count_list (fst (invalidPackError_S
     (fst (findPluginSpecs sampleEnv [] (Some sampleConfig0) [2, 0, 3, 2] [])))) None = 0 \<and>
   errorsWhere (isInvalidDirectoryError sampleEnv)
     [\<lparr>error = None, pack = Some [specA]\<rparr>] = []"
proof -
  have h: "\<not> isInvalidDirectoryError sampleEnv None" "\<not> isInvalidPackError sampleEnv None"
    by (simp_all add: sampleEnv_def)
  show ?thesis
    using null_error_never_on_otherError
            [where env = sampleEnv and settings = "[]" and cfg = "Some sampleConfig0"
               and arrival = "[2, 0, 3, 2]" and order = "[]"
               and po = "Some [specA]" and before = "[]" and after = "[]"]
          h
    by simp
qed

text \<open>
  C10, as stated, fails. With a predicate \<open>isInvalidDirectoryError\<close> that accepts \<open>null\<close>,
  the pack result of the plugin \<open>a\<close>, which has a pack and no error, is emitted on
  \<open>invalidDirectoryError$\<close>.
\<close>

theorem null_error_on_invalidDirectoryError_counterexample:
  "packResultsOf nullEnv [] onePluginConfig = [\<lparr>error = None, pack = Some [specA]\<rparr>] \<and>
   isInvalidDirectoryError nullEnv None \<and>
   invalidDirectoryError_S (fst (findPluginSpecs nullEnv [] (Some onePluginConfig) [] [])) =
     ([None], None)"
  by code_simp

subsection \<open>\<open>extendedConfig$\<close>\<close>

text \<open>
  When there are results, \<open>mergeMap(result => result.config)\<close> is handed the \<open>Config\<close>
  object as if it were a stream. For a \<open>Config\<close> that is a plain object the channel ends
  with a \<open>TypeError\<close> at the first result.
\<close>

lemma mergeMapInputs_no_stream:
  "cs \<noteq> [] \<Longrightarrow> \<forall>c. observableInput env c = None \<Longrightarrow>
   mergeMapInputs (map (observableInput env) cs) = ([], Some TypeError)"
  by (cases cs) simp_all

lemma extendedConfig_of_plain_object:
  assumes "checkConflicts env (groupSpecsById env (collectedSpecs env settings cfg arrival)) = None"
    and "collectedSpecs env settings cfg arrival \<noteq> []"
    and "\<forall>c. observableInput env c = None"
  shows "extendedConfig_S (fst (findPluginSpecs env settings cfg arrival order)) =
           ([], Some TypeError)"
proof -
  let ?packs = "packResultsOf env arrival (resolvedConfig env settings cfg)"
  let ?ec = "extendConfig_S env settings (settleBy order) ?packs
               \<lparr>config = resolvedConfig env settings cfg, trace = []\<rparr>"
  have ok: "checkConflicts env (groupSpecsById env (specsOfPacks env ?packs)) = None"
    using assms(1) by (simp add: collectedSpecs_def)
  have "length (settleBy order (specsOfPacks env ?packs)) = length (specsOfPacks env ?packs)"
    using mset_settleBy [of order "specsOfPacks env ?packs"] by (metis size_mset)
  then have ne: "settleBy order (specsOfPacks env ?packs) \<noteq> []"
    using assms(2) by (auto simp: collectedSpecs_def)
  have "length (fst (snd ?ec)) = length (settleBy order (specsOfPacks env ?packs))"
    using ok
    by (simp add: extendConfig_S_closed Let_def rollback_length classifyAll_length extendAll_length)
  with ne have cs: "fst (snd ?ec) \<noteq> []" by auto
  have "snd (fst ?ec) = None" using ok by (rule extendConfig_S_ok_obs)
  then show ?thesis
    using mergeMapInputs_no_stream [OF cs assms(3)]
    by (simp add: findPluginSpecs_unfold Let_def extendedConfigOf_def last_op_def filter_op_def)
qed

text \<open>
  C5. What the code does where the claim fails. When the configuration names no plugin
  path and no directory to scan, nothing is located, no spec is collected and
  \<open>extendConfig$\<close> completes without a result. Every other channel completes having emitted
  nothing and the configuration is not touched, but \<open>extendedConfig$\<close> does not emit it:
  \<open>last()\<close> on a stream that completes empty ends with \<open>EmptyError\<close>.
\<close>

theorem extendedConfig_fails_when_nothing_is_found:
  assumes "get_plugins_paths env (resolvedConfig env settings cfg) = []"
    and "get_plugins_scanDirs env (resolvedConfig env settings cfg) = []"
  shows "findPluginSpecs env settings cfg arrival order =
     (\<lparr>packageJson_S = ([], None), pack_S = ([], None),
       invalidDirectoryError_S = ([], None), invalidPackError_S = ([], None),
       otherError_S = ([], None), deprecation_S = ([], None),
       extendedConfig_S = ([], Some EmptyError),
       spec_S = ([], None), disabledSpec_S = ([], None), invalidVersionSpec_S = ([], None)\<rparr>,
      \<lparr>config = resolvedConfig env settings cfg, trace = []\<rparr>,
      \<lparr>cached = Some (resolvedConfig env settings cfg), deferRuns = 1,
       defaultConfigCalls = (case cfg of Some c \<Rightarrow> 0 | None \<Rightarrow> 1)\<rparr>)"
proof -
  have p: "packResultsOf env arrival (resolvedConfig env settings cfg) = []"
    using assms
    by (simp add: packResultsOf_def locate_def mergeBy_Nil dedupe_def distinctBy_def
        createPack_S_def)
  have ok: "checkConflicts env (groupSpecsById env (specsOfPacks env [])) = None"
    by (simp add: specsOfPacks_def groupSpecsById_def)
  show ?thesis
    using assms
    by (simp add: findPluginSpecs_unfold Let_def p locate_def mergeBy_Nil dedupe_def distinctBy_def
        extendConfig_S_closed [OF ok] specsOfPacks_def settleBy_Nil errorsWhere_def
        mergeMapArray_def extendedConfigOf_def last_op_def filter_op_def)
qed

theorem extendedConfig_fails_when_nothing_is_found_witness:
  "get_plugins_paths sampleEnv (resolvedConfig sampleEnv [] (Some emptyConfig)) = [] \<and>
   get_plugins_scanDirs sampleEnv (resolvedConfig sampleEnv [] (Some emptyConfig)) = [] \<and>
   findPluginSpecs sampleEnv [] (Some emptyConfig) [] [] =
     (\<lparr>packageJson_S = ([], None), pack_S = ([], None),
       invalidDirectoryError_S = ([], None), invalidPackError_S = ([], None),
       otherError_S = ([], None), deprecation_S = ([], None),
       extendedConfig_S = ([], Some EmptyError),
       spec_S = ([], None), disabledSpec_S = ([], None), invalidVersionSpec_S = ([], None)\<rparr>,
      \<lparr>config = emptyConfig, trace = []\<rparr>,
      \<lparr>cached = Some emptyConfig, deferRuns = 1, defaultConfigCalls = 0\<rparr>)"
  using extendedConfig_fails_when_nothing_is_found
          [where env = sampleEnv and settings = "[]" and cfg = "Some emptyConfig"
             and arrival = "[]" and order = "[]"]
  by (simp add: resolvedConfig_def sampleEnv_def emptyConfig_def)

end
